(* ===== verification/Prelude.thy ===== *)
theory Prelude
  imports Main "HOL-Library.Word" "HOL-Library.Signed_Division"
begin

text \<open>
  Shared ground of the gpcieuni development: the machine integers of the C code, the error
  numbers it returns, the ways an execution can go wrong that no return value reports, a
  state-and-fault monad in which every driver operation is written, and the generic facts on
  words and lists that the component theories use.

  The integer types keep the width they have in the driver on a 64-bit kernel: \<open>int\<close> and
  \<open>unsigned int\<close> are 32-bit words, \<open>long\<close>, \<open>size_t\<close>, \<open>loff_t\<close> and pointers 64-bit words.
  A negative value is the two's complement word; the kernel is compiled with wrapping signed
  arithmetic, as the word operations are.
\<close>

unbundle bit_operations_syntax

section \<open>Machine types\<close>

type_synonym u8 = "8 word"
type_synonym u16 = "16 word"
type_synonym u32 = "32 word"
type_synonym u64 = "64 word"
type_synonym c_int = "32 word"
type_synonym ssize = "64 word"
type_synonym loff = "64 word"
type_synonym ptr = "64 word"

abbreviation (input) NULL :: ptr where
  "NULL \<equiv> 0"

text \<open>The error numbers the driver returns (negated), as C \<open>int\<close> values.\<close>

abbreviation (input) EINTR :: c_int where "EINTR \<equiv> 4"
abbreviation (input) ENOMEM :: c_int where "ENOMEM \<equiv> 12"
abbreviation (input) EFAULT :: c_int where "EFAULT \<equiv> 14"
abbreviation (input) EBUSY :: c_int where "EBUSY \<equiv> 16"
abbreviation (input) ENOTTY :: c_int where "ENOTTY \<equiv> 25"
abbreviation (input) ERESTARTSYS :: c_int where "ERESTARTSYS \<equiv> 512"

section \<open>Executions that do not return\<close>

text \<open>
  \<^item> \<open>NullDeref\<close>: an access through the null pointer or to an object that is not allocated;
  \<^item> \<open>Deadlock\<close>: waiting for a lock that its holder never gives back;
  \<^item> \<open>Diverges\<close>: a loop that runs for ever;
  \<^item> \<open>BufOverflow\<close>: a write past the end of a fixed-size character array;
  \<^item> \<open>OutOfBounds\<close>: a read past the end of a string.
\<close>

datatype kfault = NullDeref | Deadlock | Diverges | BufOverflow | OutOfBounds

section \<open>The state-and-fault monad\<close>

type_synonym ('s, 'a) km = "'s \<Rightarrow> kfault + ('a \<times> 's)"

definition kret :: "'a \<Rightarrow> ('s, 'a) km" where
  "kret a s = Inr (a, s)"

definition kfail :: "kfault \<Rightarrow> ('s, 'a) km" where
  "kfail e s = Inl e"

definition kbind :: "('s, 'a) km \<Rightarrow> ('a \<Rightarrow> ('s, 'b) km) \<Rightarrow> ('s, 'b) km" where
  "kbind m f s = (case m s of Inl e \<Rightarrow> Inl e | Inr (a, s') \<Rightarrow> f a s')"

definition kseq :: "('s, 'a) km \<Rightarrow> ('s, 'b) km \<Rightarrow> ('s, 'b) km" where
  "kseq m n = kbind m (\<lambda>_. n)"

definition kget :: "('s \<Rightarrow> 'a) \<Rightarrow> ('s, 'a) km" where
  "kget f s = Inr (f s, s)"

definition kmod :: "('s \<Rightarrow> 's) \<Rightarrow> ('s, unit) km" where
  "kmod f s = Inr ((), f s)"

text \<open>A conditional statement with an empty else branch.\<close>

definition kwhen :: "bool \<Rightarrow> ('s, unit) km \<Rightarrow> ('s, unit) km" where
  "kwhen b m = (if b then m else kret ())"

text \<open>A loop that has no result runs for ever.\<close>

definition kloop :: "('s \<Rightarrow> (kfault + ('a \<times> 's)) option) \<Rightarrow> ('s, 'a) km" where
  "kloop l s = (case l s of None \<Rightarrow> Inl Diverges | Some r \<Rightarrow> r)"

named_theorems km_simps "evaluation of the state-and-fault monad"

lemma kret_app [km_simps]: "kret a s = Inr (a, s)"
  by (simp add: kret_def)

lemma kfail_app [km_simps]: "kfail e s = Inl e"
  by (simp add: kfail_def)

lemma kget_app [km_simps]: "kget f s = Inr (f s, s)"
  by (simp add: kget_def)

lemma kmod_app [km_simps]: "kmod f s = Inr ((), f s)"
  by (simp add: kmod_def)

lemma kbind_Inl [km_simps]: "m s = Inl e \<Longrightarrow> kbind m f s = Inl e"
  by (simp add: kbind_def)

lemma kbind_Inr [km_simps]: "m s = Inr (a, s') \<Longrightarrow> kbind m f s = f a s'"
  by (simp add: kbind_def)

lemma kseq_Inl [km_simps]: "m s = Inl e \<Longrightarrow> kseq m n s = Inl e"
  by (simp add: kseq_def kbind_def)

lemma kseq_Inr [km_simps]: "m s = Inr (a, s') \<Longrightarrow> kseq m n s = n s'"
  by (simp add: kseq_def kbind_def)

lemma kwhen_True [km_simps]: "b \<Longrightarrow> kwhen b m = m"
  by (simp add: kwhen_def)

lemma kwhen_False [km_simps]: "\<not> b \<Longrightarrow> kwhen b m s = Inr ((), s)"
  by (simp add: kwhen_def kret_def)

lemma kloop_Some [km_simps]: "l s = Some r \<Longrightarrow> kloop l s = r"
  by (simp add: kloop_def)

lemma kloop_None [km_simps]: "l s = None \<Longrightarrow> kloop l s = Inl Diverges"
  by (simp add: kloop_def)

lemma kbind_eq_Inr:
  "kbind m f s = Inr r \<longleftrightarrow> (\<exists>a s'. m s = Inr (a, s') \<and> f a s' = Inr r)"
  by (auto simp: kbind_def split: sum.splits)

lemma kseq_eq_Inr:
  "kseq m n s = Inr r \<longleftrightarrow> (\<exists>a s'. m s = Inr (a, s') \<and> n s' = Inr r)"
  by (auto simp: kseq_def kbind_def split: sum.splits)

lemma kwhen_eq_Inr:
  "kwhen b m s = Inr (u, t) \<longleftrightarrow> (if b then m s = Inr (u, t) else t = s)"
  by (auto simp: kwhen_def kret_def)

lemmas km_inverts = kbind_eq_Inr kseq_eq_Inr kwhen_eq_Inr kret_app kfail_app kget_app kmod_app

section \<open>Operations that keep a state predicate\<close>

text \<open>
  \<open>keeps P m\<close>: whenever \<open>m\<close> returns from a state with \<open>P\<close>, the state it leaves has \<open>P\<close>. The
  rules follow the structure of an operation, so an invariant of a composed operation is
  proved from its parts.
\<close>

definition keeps :: "('s \<Rightarrow> bool) \<Rightarrow> ('s, 'a) km \<Rightarrow> bool" where
  "keeps P m \<longleftrightarrow> (\<forall>s a s'. P s \<longrightarrow> m s = Inr (a, s') \<longrightarrow> P s')"

named_theorems keeps_intros "structural rules for keeps"

lemma keepsI: "(\<And>s a s'. P s \<Longrightarrow> m s = Inr (a, s') \<Longrightarrow> P s') \<Longrightarrow> keeps P m"
  by (auto simp: keeps_def)

lemma keepsD: "keeps P m \<Longrightarrow> P s \<Longrightarrow> m s = Inr (a, s') \<Longrightarrow> P s'"
  by (auto simp: keeps_def)

lemma keeps_kret [keeps_intros]: "keeps P (kret a)"
  by (simp add: keeps_def kret_def)

lemma keeps_kfail [keeps_intros]: "keeps P (kfail e)"
  by (simp add: keeps_def kfail_def)

lemma keeps_kget [keeps_intros]: "keeps P (kget f)"
  by (simp add: keeps_def kget_def)

lemma keeps_kmod: "(\<And>s. P s \<Longrightarrow> P (f s)) \<Longrightarrow> keeps P (kmod f)"
  by (simp add: keeps_def kmod_def)

lemma keeps_kbind [keeps_intros]:
  "keeps P m \<Longrightarrow> (\<And>a. keeps P (f a)) \<Longrightarrow> keeps P (kbind m f)"
  unfolding keeps_def kbind_eq_Inr by blast

lemma keeps_kseq [keeps_intros]: "keeps P m \<Longrightarrow> keeps P n \<Longrightarrow> keeps P (kseq m n)"
  by (simp add: kseq_def keeps_kbind)

lemma keeps_kwhen [keeps_intros]: "(b \<Longrightarrow> keeps P m) \<Longrightarrow> keeps P (kwhen b m)"
  by (simp add: kwhen_def keeps_kret)

lemma keeps_if [keeps_intros]:
  "(b \<Longrightarrow> keeps P m) \<Longrightarrow> (\<not> b \<Longrightarrow> keeps P n) \<Longrightarrow> keeps P (if b then m else n)"
  by simp

lemma keeps_case_option [keeps_intros]:
  "keeps P m \<Longrightarrow> (\<And>x. keeps P (f x)) \<Longrightarrow> keeps P (case v of None \<Rightarrow> m | Some x \<Rightarrow> f x)"
  by (cases v) simp_all

lemma keeps_Let [keeps_intros]: "keeps P (f x) \<Longrightarrow> keeps P (let y = x in f y)"
  by simp

section \<open>Words\<close>

text \<open>C's signed remainder by four tells an aligned offset, whatever its sign.\<close>

lemma sint_smod_4_eq_0_iff: "sint (x :: 64 word) smod 4 = 0 \<longleftrightarrow> x mod 4 = 0"
proof -
  have "sint x smod 4 = 0 \<longleftrightarrow> 4 dvd sint x"
    by (auto simp: smod_int_alt_def dvd_eq_mod_eq_0 [symmetric] sgn_if split: if_splits)
  also have "\<dots> \<longleftrightarrow> 4 dvd uint x"
  proof -
    have "sint x mod 4 = take_bit 2 (sint x)" by (simp add: take_bit_eq_mod)
    moreover have "uint x mod 4 = take_bit 2 (uint x)" by (simp add: take_bit_eq_mod)
    moreover have "take_bit 2 (sint x) = take_bit 2 (uint x)"
      by (simp add: sint_uint take_bit_signed_take_bit)
    ultimately show ?thesis by (simp add: dvd_eq_mod_eq_0)
  qed
  also have "\<dots> \<longleftrightarrow> uint (x mod 4) = 0"
    by (simp add: uint_mod dvd_eq_mod_eq_0)
  finally show ?thesis by (simp add: unsigned_eq_0_iff)
qed

lemma unat_of_nat_small: "n < 2 ^ LENGTH('a) \<Longrightarrow> unat (of_nat n :: 'a::len word) = n"
  by (simp add: unat_of_nat)

lemma unat_u32_less: "unat (x :: u32) < 2 ^ 32"
  using unsigned_less [where ?'a = nat and w = x] by simp

lemma unat_u64_less: "unat (x :: u64) < 2 ^ 64"
  using unsigned_less [where ?'a = nat and w = x] by simp

lemma unat_ucast_u32_u64 [simp]: "unat (ucast (x :: u32) :: u64) = unat x"
  by (simp add: unsigned_ucast_eq take_bit_nat_eq_self unat_u32_less [THEN less_trans])

lemma word_mod_4_eq_0: "(x :: u64) mod 4 = 0 \<longleftrightarrow> 4 dvd unat x"
proof -
  have "x mod 4 = 0 \<longleftrightarrow> unat (x mod 4) = 0" by (simp add: unsigned_eq_0_iff)
  then show ?thesis by (simp add: unat_mod dvd_eq_mod_eq_0)
qed

end
