(* ===== verification/Kernel.thy ===== *)
theory Kernel
  imports Prelude
begin

text \<open>
  The boundary between the driver and the Linux kernel. Nothing of the kernel is defined here:
  what a kernel service returns is a parameter of the model, a field of the record \<open>kenv\<close>,
  and every service call the driver makes is recorded as an event of the log, newest first.
  A field of \<open>kenv\<close> receives the log, so a service may answer the same call differently at
  different times (a register that changes, an allocation that fails later, a signal that
  arrives). What the driver relies on is stated as a hypothesis on these fields by the
  theorems that need it.
\<close>

section \<open>Kernel services called\<close>

text \<open>Device registers and user memory.\<close>

datatype io_call =
    Ioread32 ptr u32
  | Iowrite32 u32 ptr
  | Smp_wmb
  | Smp_rmb
  | Rmb
  | Wmb
  | Udelay nat
  | Copy_to_user ptr "u32 list"
  | Copy_from_user ptr "u32 list"

text \<open>Kernel memory, pages and DMA mappings.\<close>

datatype mem_call =
    Kzalloc ptr
  | Kfree ptr
  | Get_free_pages u32 ptr
  | Free_pages ptr u32
  | SetPageReserved ptr
  | ClearPageReserved ptr
  | Dma_map_single ptr ptr u64 ptr
  | Dma_unmap_single ptr ptr u64

text \<open>Locks and wait queues.\<close>

datatype sync_call =
    Mutex_lock ptr
  | Mutex_unlock ptr
  | Wait_event_timeout ptr c_int
  | Wake_up ptr

text \<open>PCI devices and interrupts.\<close>

datatype pci_call =
    Pci_enable_device ptr
  | Pci_disable_device ptr
  | Pci_request_regions ptr
  | Pci_release_regions ptr
  | Pci_set_master ptr
  | Pci_iomap ptr nat u64 ptr
  | Pci_iounmap ptr ptr
  | Pci_enable_msi ptr
  | Pci_disable_msi ptr
  | Dma_set_mask ptr nat
  | Request_irq u32 c_int ptr
  | Free_irq u32 ptr

text \<open>Character device numbers, device nodes and proc entries.\<close>

datatype node_call =
    Device_create ptr c_int string
  | Device_destroy ptr c_int
  | Proc_create string ptr
  | Proc_remove string
  | Alloc_chrdev_region c_int nat
  | Unregister_chrdev_region c_int nat
  | Class_create ptr
  | Class_destroy ptr
  | Cdev_add ptr c_int

datatype kcall = Io io_call | Mem mem_call | Sync sync_call | Pci pci_call | Node node_call

type_synonym klog = "kcall list"

section \<open>What the kernel answers\<close>

text \<open>
  \<^item> \<open>kzalloc_ret\<close>: the address of the zeroed object, or null;
  \<^item> \<open>ioread32_ret\<close>: the value the device register at an address delivers;
  \<^item> \<open>copy_to_user_fails\<close>, \<open>copy_from_user_fails\<close>: whether a copy to or from a user address
    reports uncopied bytes; \<open>user_word\<close>: the word the user program keeps at an address;
  \<^item> \<open>access_ok_ret\<close>: the range check of a user pointer;
  \<^item> \<open>lock_interrupted\<close>: whether a signal interrupts the wait for the mutex of a device;
  \<^item> \<open>pci_devfn_of\<close>, \<open>pci_bus_number_of\<close>, \<open>pci_bridge_of\<close>, \<open>pci_irq_of\<close>: the fields \<open>devfn\<close>, \<open>bus->number\<close>,
    \<open>bus->self\<close> and \<open>irq\<close> of a PCI device (the last changes when MSI is enabled);
  \<^item> the other fields: the return values of the PCI, DMA, interrupt, character device and
    page allocator services of the same names.
\<close>

record kenv =
  kzalloc_ret :: "klog \<Rightarrow> ptr"
  ioread32_ret :: "klog \<Rightarrow> ptr \<Rightarrow> u32"
  copy_to_user_fails :: "klog \<Rightarrow> ptr \<Rightarrow> bool"
  copy_from_user_fails :: "klog \<Rightarrow> ptr \<Rightarrow> bool"
  user_word :: "klog \<Rightarrow> ptr \<Rightarrow> u32"
  access_ok_ret :: "ptr \<Rightarrow> u64 \<Rightarrow> bool"
  lock_interrupted :: "klog \<Rightarrow> ptr \<Rightarrow> bool"
  get_order_ret :: "u64 \<Rightarrow> u32"
  page_shift :: nat
  get_free_pages_ret :: "klog \<Rightarrow> u32 \<Rightarrow> ptr"
  dma_map_single_ret :: "klog \<Rightarrow> ptr \<Rightarrow> u64 \<Rightarrow> ptr"
  dma_mapping_error_ret :: "ptr \<Rightarrow> ptr \<Rightarrow> bool"
  pci_enable_device_ret :: "klog \<Rightarrow> ptr \<Rightarrow> c_int"
  pci_request_regions_ret :: "klog \<Rightarrow> ptr \<Rightarrow> c_int"
  pci_devfn_of :: "ptr \<Rightarrow> u32"
  pci_bus_number_of :: "ptr \<Rightarrow> u32"
  pci_bridge_of :: "ptr \<Rightarrow> ptr"
  pci_irq_of :: "klog \<Rightarrow> ptr \<Rightarrow> u32"
  pci_find_capability_ret :: "ptr \<Rightarrow> c_int"
  pci_config_byte :: "klog \<Rightarrow> ptr \<Rightarrow> c_int \<Rightarrow> u8"
  pci_config_word :: "klog \<Rightarrow> ptr \<Rightarrow> c_int \<Rightarrow> u16"
  pci_config_dword :: "klog \<Rightarrow> ptr \<Rightarrow> c_int \<Rightarrow> u32"
  pci_resource_start_ret :: "ptr \<Rightarrow> nat \<Rightarrow> u64"
  pci_resource_end_ret :: "ptr \<Rightarrow> nat \<Rightarrow> u64"
  pci_resource_flags_ret :: "ptr \<Rightarrow> nat \<Rightarrow> u64"
  pci_iomap_ret :: "klog \<Rightarrow> ptr \<Rightarrow> nat \<Rightarrow> u64 \<Rightarrow> ptr"
  dma_set_mask_ret :: "klog \<Rightarrow> ptr \<Rightarrow> nat \<Rightarrow> c_int"
  pci_enable_msi_ret :: "klog \<Rightarrow> ptr \<Rightarrow> c_int"
  request_irq_ret :: "klog \<Rightarrow> u32 \<Rightarrow> c_int"
  alloc_chrdev_major :: "klog \<Rightarrow> c_int"
  class_create_ret :: "klog \<Rightarrow> ptr"
  proc_create_ret :: "klog \<Rightarrow> ptr"
  cdev_add_ret :: "klog \<Rightarrow> c_int \<Rightarrow> c_int"
  simple_strtol_ret :: "string \<Rightarrow> u64"

text \<open>
  A concrete kernel in which nothing fails and every register reads as zero. Witnesses
  evaluate the driver on it and on variations of it.
\<close>

definition quiet_kernel :: kenv where
  "quiet_kernel = \<lparr>
     kzalloc_ret = (\<lambda>l. 0x1000 + 0x1000 * of_nat (length l)),
     ioread32_ret = (\<lambda>_ _. 0),
     copy_to_user_fails = (\<lambda>_ _. False),
     copy_from_user_fails = (\<lambda>_ _. False),
     user_word = (\<lambda>_ _. 0),
     access_ok_ret = (\<lambda>_ _. True),
     lock_interrupted = (\<lambda>_ _. False),
     get_order_ret = (\<lambda>_. 0),
     page_shift = 12,
     get_free_pages_ret = (\<lambda>l _. 0x100000 + 0x1000 * of_nat (length l)),
     dma_map_single_ret = (\<lambda>_ a _. a),
     dma_mapping_error_ret = (\<lambda>_ _. False),
     pci_enable_device_ret = (\<lambda>_ _. 0),
     pci_request_regions_ret = (\<lambda>_ _. 0),
     pci_devfn_of = (\<lambda>_. 0),
     pci_bus_number_of = (\<lambda>_. 0),
     pci_bridge_of = (\<lambda>_. 0x40),
     pci_irq_of = (\<lambda>_ _. 0),
     pci_find_capability_ret = (\<lambda>_. 0x40),
     pci_config_byte = (\<lambda>_ _ _. 0),
     pci_config_word = (\<lambda>_ _ _. 0),
     pci_config_dword = (\<lambda>_ _ _. 0),
     pci_resource_start_ret = (\<lambda>_ _. 0),
     pci_resource_end_ret = (\<lambda>_ _. 0),
     pci_resource_flags_ret = (\<lambda>_ _. 0),
     pci_iomap_ret = (\<lambda>_ _ _ _. 0),
     dma_set_mask_ret = (\<lambda>_ _ _. 0),
     pci_enable_msi_ret = (\<lambda>_ _. 0),
     request_irq_ret = (\<lambda>_ _. 0),
     alloc_chrdev_major = (\<lambda>_. 240),
     class_create_ret = (\<lambda>_. 0x800),
     proc_create_ret = (\<lambda>_. 0x900),
     cdev_add_ret = (\<lambda>_ _. 0),
     simple_strtol_ret = (\<lambda>_. 0)\<rparr>"

section \<open>Reading the log\<close>

text \<open>
  The word last copied to a user address, the value last written to a device register, and
  the register addresses accessed.
\<close>

fun copied_out :: "klog \<Rightarrow> ptr \<Rightarrow> u32 option" where
  "copied_out [] a = None"
| "copied_out (c # l) a =
     (case c of
        Io (Copy_to_user b ws) \<Rightarrow>
          (if unat (a - b) mod 4 = 0 \<and> unat (a - b) div 4 < length ws
           then Some (ws ! (unat (a - b) div 4)) else copied_out l a)
      | _ \<Rightarrow> copied_out l a)"

fun reg_written :: "klog \<Rightarrow> ptr \<Rightarrow> u32 option" where
  "reg_written [] a = None"
| "reg_written (c # l) a =
     (case c of Io (Iowrite32 v b) \<Rightarrow> (if a = b then Some v else reg_written l a)
      | _ \<Rightarrow> reg_written l a)"

fun io_addrs :: "klog \<Rightarrow> ptr list" where
  "io_addrs [] = []"
| "io_addrs (c # l) =
     (case c of Io (Ioread32 a v) \<Rightarrow> a # io_addrs l | Io (Iowrite32 v a) \<Rightarrow> a # io_addrs l
      | _ \<Rightarrow> io_addrs l)"

lemma io_addrs_append [simp]: "io_addrs (l @ l') = io_addrs l @ io_addrs l'"
  by (induction l) (auto split: kcall.splits io_call.splits)

lemma copied_out_append:
  "copied_out (l @ l') a = (case copied_out l a of None \<Rightarrow> copied_out l' a | Some w \<Rightarrow> Some w)"
  by (induction l) (auto split: kcall.splits io_call.splits)

lemma reg_written_append:
  "reg_written (l @ l') a = (case reg_written l a of None \<Rightarrow> reg_written l' a | Some w \<Rightarrow> Some w)"
  by (induction l) (auto split: kcall.splits io_call.splits)

lemma copied_out_word:
  "copied_out (Io (Copy_to_user b [w]) # l) a = (if a = b then Some w else copied_out l a)"
proof -
  have "unat (a - b) mod 4 = 0 \<and> unat (a - b) div 4 < length [w] \<longleftrightarrow> a = b"
  proof
    assume "unat (a - b) mod 4 = 0 \<and> unat (a - b) div 4 < length [w]"
    then have "unat (a - b) = 0" by auto
    then show "a = b" by (simp add: unsigned_eq_0_iff)
  qed simp
  then show ?thesis by simp
qed

end
