(* ===== verification/Device_Data.thy ===== *)
theory Device_Data
  imports Kernel
begin

text \<open>
  The data of \<open>pcieuni_ufn.h\<close>: the per-board structure \<open>pcieuni_dev\<close>, the per-module
  structure \<open>pcieuni_cdev\<close> with its table of boards, the board and project information, the
  list of open files; the driver's memory, a store of these structures by address; and the
  small accessors of \<open>pcieuni_ufn.c\<close> (driver data, board number, BAR address).

  The five variables the header keeps for each BAR (\<open>mem_baseN\<close>, \<open>mem_baseN_end\<close>,
  \<open>mem_baseN_flag\<close>, \<open>rw_offN\<close>, \<open>memmory_baseN\<close>) are one record per BAR, in the six fields
  \<open>bar0\<close> to \<open>bar5\<close>. Kernel lists (\<open>struct list_head\<close>) are HOL lists, head first; a node keeps
  its address. The embedded \<open>struct cdev\<close> is the kernel's and is not a field.
\<close>

section \<open>Constants\<close>

abbreviation (input) PCIEUNI_NR_DEVS :: nat where "PCIEUNI_NR_DEVS \<equiv> 15"

abbreviation (input) ASCII_BOARD_MAGIC_NUM :: u32 where "ASCII_BOARD_MAGIC_NUM \<equiv> 0x424F5244"
abbreviation (input) ASCII_PROJ_MAGIC_NUM :: u32 where "ASCII_PROJ_MAGIC_NUM \<equiv> 0x50524F4A"
abbreviation (input) ASCII_BOARD_MAGIC_NUM_L :: u32 where "ASCII_BOARD_MAGIC_NUM_L \<equiv> 0x626F7264"

abbreviation (input) WORD_BOARD_ID :: ptr where "WORD_BOARD_ID \<equiv> 0x04"
abbreviation (input) WORD_BOARD_VERSION :: ptr where "WORD_BOARD_VERSION \<equiv> 0x08"
abbreviation (input) WORD_BOARD_DATE :: ptr where "WORD_BOARD_DATE \<equiv> 0x0C"
abbreviation (input) WORD_BOARD_HW_VERSION :: ptr where "WORD_BOARD_HW_VERSION \<equiv> 0x10"
abbreviation (input) WORD_BOARD_TO_PROJ :: ptr where "WORD_BOARD_TO_PROJ \<equiv> 0x18"

abbreviation (input) WORD_PROJ_ID :: ptr where "WORD_PROJ_ID \<equiv> 0x04"
abbreviation (input) WORD_PROJ_VERSION :: ptr where "WORD_PROJ_VERSION \<equiv> 0x08"
abbreviation (input) WORD_PROJ_DATE :: ptr where "WORD_PROJ_DATE \<equiv> 0x0C"
abbreviation (input) WORD_PROJ_RESERVED :: ptr where "WORD_PROJ_RESERVED \<equiv> 0x10"
abbreviation (input) WORD_PROJ_NEXT :: ptr where "WORD_PROJ_NEXT \<equiv> 0x18"

section \<open>Structures\<close>

record pcieuni_file_list =
  fl_addr :: ptr
  fl_filp :: ptr
  fl_file_cnt :: c_int

record pcieuni_brd_info =
  PCIEUNI_BOARD_ID :: u32
  PCIEUNI_BOARD_VERSION :: u32
  PCIEUNI_BOARD_DATE :: u32
  PCIEUNI_HW_VERSION :: u32
  PCIEUNI_BOARD_RESERVED :: u32
  BRD_PROJ_NEXT :: u32

record pcieuni_prj_info =
  prj_addr :: ptr
  PCIEUNI_PROJ_ID :: u32
  PCIEUNI_PROJ_VERSION :: u32
  PCIEUNI_PROJ_DATE :: u32
  PCIEUNI_PROJ_RESERVED :: u32
  PCIEUNI_PROJ_NEXT :: u32

record pcieuni_bar =
  mem_base :: u32
  mem_base_end :: u32
  mem_base_flag :: u32
  rw_off :: loff
  memmory_base :: ptr

record pcieuni_dev =
  name :: string
  dev_mut :: bool
  binded :: c_int
  pcieuni_pci_dev :: ptr
  dev_num :: c_int
  brd_num :: c_int
  dev_minor :: c_int
  dev_sts :: c_int
  dev_file_ref :: c_int
  null_dev :: c_int
  dev_file_list :: "pcieuni_file_list list"
  list_file_cnt :: c_int
  slot_num :: c_int
  vendor_id :: u16
  device_id :: u16
  subvendor_id :: u16
  subdevice_id :: u16
  class_code :: u16
  revision :: u8
  devfn :: u32
  busNumber :: u32
  devNumber :: u32
  funcNumber :: u32
  bus_func :: c_int
  bar0 :: pcieuni_bar
  bar1 :: pcieuni_bar
  bar2 :: pcieuni_bar
  bar3 :: pcieuni_bar
  bar4 :: pcieuni_bar
  bar5 :: pcieuni_bar
  dev_dma_64mask :: c_int
  pcieuni_all_mems :: c_int
  dev_payload_size :: c_int
  msi :: u8
  irq_flag :: c_int
  irq_mode :: u16
  irq_line :: u8
  irq_pin :: u8
  pci_dev_irq :: u32
  parent_dev :: ptr
  dev_str :: ptr
  brd_info_list :: pcieuni_brd_info
  prj_info_list :: "pcieuni_prj_info list"
  startup_brd :: c_int
  startup_prj_num :: c_int

record pcieuni_cdev =
  GPCIEUNI_VER_MAJ :: u16
  GPCIEUNI_VER_MIN :: u16
  PCIEUNI_DRV_VER_MAJ :: u16
  PCIEUNI_DRV_VER_MIN :: u16
  PCIEUNI_MAJOR :: c_int
  PCIEUNI_MINOR :: c_int
  pcieuni_dev_m :: "ptr list"
  pcieuni_class :: ptr
  pcieuni_procdir :: ptr
  pcieuniModuleNum :: c_int


text \<open>The structures as \<open>kzalloc\<close> delivers them, every byte zero.\<close>

definition zero_bar :: pcieuni_bar where
  "zero_bar = \<lparr>mem_base = 0, mem_base_end = 0, mem_base_flag = 0, rw_off = 0, memmory_base = 0\<rparr>"

definition zero_brd_info :: pcieuni_brd_info where
  "zero_brd_info = \<lparr>PCIEUNI_BOARD_ID = 0, PCIEUNI_BOARD_VERSION = 0, PCIEUNI_BOARD_DATE = 0,
     PCIEUNI_HW_VERSION = 0, PCIEUNI_BOARD_RESERVED = 0, BRD_PROJ_NEXT = 0\<rparr>"

definition zero_dev :: pcieuni_dev where
  "zero_dev = \<lparr>name = [], dev_mut = False, binded = 0, pcieuni_pci_dev = 0, dev_num = 0,
     brd_num = 0, dev_minor = 0, dev_sts = 0, dev_file_ref = 0, null_dev = 0,
     dev_file_list = [], list_file_cnt = 0, slot_num = 0, vendor_id = 0, device_id = 0,
     subvendor_id = 0, subdevice_id = 0, class_code = 0, revision = 0, devfn = 0,
     busNumber = 0, devNumber = 0, funcNumber = 0, bus_func = 0,
     bar0 = zero_bar, bar1 = zero_bar, bar2 = zero_bar, bar3 = zero_bar, bar4 = zero_bar,
     bar5 = zero_bar, dev_dma_64mask = 0, pcieuni_all_mems = 0, dev_payload_size = 0,
     msi = 0, irq_flag = 0, irq_mode = 0, irq_line = 0, irq_pin = 0, pci_dev_irq = 0,
     parent_dev = 0, dev_str = 0, brd_info_list = zero_brd_info, prj_info_list = [],
     startup_brd = 0, startup_prj_num = 0\<rparr>"

definition zero_cdev :: pcieuni_cdev where
  "zero_cdev = \<lparr>GPCIEUNI_VER_MAJ = 0, GPCIEUNI_VER_MIN = 0, PCIEUNI_DRV_VER_MAJ = 0,
     PCIEUNI_DRV_VER_MIN = 0, PCIEUNI_MAJOR = 0, PCIEUNI_MINOR = 0,
     pcieuni_dev_m = replicate (PCIEUNI_NR_DEVS + 1) 0, pcieuni_class = 0,
     pcieuni_procdir = 0, pcieuniModuleNum = 0\<rparr>"

text \<open>The BAR of a number, where the source has one variable per BAR.\<close>

definition dev_bar :: "pcieuni_dev \<Rightarrow> nat \<Rightarrow> pcieuni_bar option" where
  "dev_bar d k =
     (if k = 0 then Some (bar0 d) else if k = 1 then Some (bar1 d)
      else if k = 2 then Some (bar2 d) else if k = 3 then Some (bar3 d)
      else if k = 4 then Some (bar4 d) else if k = 5 then Some (bar5 d) else None)"

section \<open>The driver's memory\<close>

text \<open>
  The structures the driver has allocated, by address; \<open>filp->private_data\<close> of every open
  file; the driver data pointer of every PCI device; the log of kernel calls.
\<close>

record kst =
  k_dev :: "ptr \<Rightarrow> pcieuni_dev option"
  k_cdev :: "ptr \<Rightarrow> pcieuni_cdev option"
  k_priv :: "ptr \<Rightarrow> ptr"
  k_drvdata :: "ptr \<Rightarrow> ptr"
  k_log :: klog

definition empty_kst :: kst where
  "empty_kst = \<lparr>k_dev = (\<lambda>_. None), k_cdev = (\<lambda>_. None), k_priv = (\<lambda>_. 0),
     k_drvdata = (\<lambda>_. 0), k_log = []\<rparr>"

definition log_add :: "kcall \<Rightarrow> 'z kst_scheme \<Rightarrow> 'z kst_scheme" where
  "log_add c s = s\<lparr>k_log := c # k_log s\<rparr>"

definition log_call :: "kcall \<Rightarrow> ('z kst_scheme, unit) km" where
  "log_call c = kmod (log_add c)"

definition get_dev :: "ptr \<Rightarrow> ('z kst_scheme, pcieuni_dev) km" where
  "get_dev p s = (if p = NULL then Inl NullDeref else
     (case k_dev s p of None \<Rightarrow> Inl NullDeref | Some d \<Rightarrow> Inr (d, s)))"

definition upd_dev :: "ptr \<Rightarrow> (pcieuni_dev \<Rightarrow> pcieuni_dev) \<Rightarrow> ('z kst_scheme, unit) km" where
  "upd_dev p f = kbind (get_dev p) (\<lambda>d. kmod (\<lambda>s. s\<lparr>k_dev := (k_dev s)(p \<mapsto> f d)\<rparr>))"

definition get_cdev :: "ptr \<Rightarrow> ('z kst_scheme, pcieuni_cdev) km" where
  "get_cdev p s = (if p = NULL then Inl NullDeref else
     (case k_cdev s p of None \<Rightarrow> Inl NullDeref | Some c \<Rightarrow> Inr (c, s)))"

definition upd_cdev :: "ptr \<Rightarrow> (pcieuni_cdev \<Rightarrow> pcieuni_cdev) \<Rightarrow> ('z kst_scheme, unit) km" where
  "upd_cdev p f = kbind (get_cdev p) (\<lambda>c. kmod (\<lambda>s. s\<lparr>k_cdev := (k_cdev s)(p \<mapsto> f c)\<rparr>))"

section \<open>Calls into the kernel\<close>

text \<open>A call that always comes back, as an operation of the monad.\<close>

definition klift :: "('s \<Rightarrow> 'a \<times> 's) \<Rightarrow> ('s, 'a) km" where
  "klift f s = Inr (f s)"

definition kzalloc :: "kenv \<Rightarrow> 'z kst_scheme \<Rightarrow> ptr \<times> 'z kst_scheme" where
  "kzalloc env s = (let p = kzalloc_ret env (k_log s) in (p, log_add (Mem (Kzalloc p)) s))"

definition ioread32 :: "kenv \<Rightarrow> ptr \<Rightarrow> 'z kst_scheme \<Rightarrow> u32 \<times> 'z kst_scheme" where
  "ioread32 env a s =
     (let v = ioread32_ret env (k_log s) a in (v, log_add (Io (Ioread32 a v)) s))"

definition iowrite32 :: "u32 \<Rightarrow> ptr \<Rightarrow> 'z kst_scheme \<Rightarrow> 'z kst_scheme" where
  "iowrite32 v a s = log_add (Io (Iowrite32 v a)) s"

text \<open>True when bytes were left uncopied; then nothing is logged as copied.\<close>

definition copy_to_user :: "kenv \<Rightarrow> ptr \<Rightarrow> u32 list \<Rightarrow> 'z kst_scheme \<Rightarrow> bool \<times> 'z kst_scheme" where
  "copy_to_user env a ws s =
     (if copy_to_user_fails env (k_log s) a then (True, s)
      else (False, log_add (Io (Copy_to_user a ws)) s))"

text \<open>\<open>None\<close> when bytes were left uncopied; otherwise the \<open>n\<close> words found at the address.\<close>

definition copy_from_user ::
  "kenv \<Rightarrow> ptr \<Rightarrow> nat \<Rightarrow> 'z kst_scheme \<Rightarrow> u32 list option \<times> 'z kst_scheme" where
  "copy_from_user env a n s =
     (if copy_from_user_fails env (k_log s) a then (None, s)
      else let ws = map (\<lambda>i. user_word env (k_log s) (a + 4 * of_nat i)) [0..<n]
           in (Some ws, log_add (Io (Copy_from_user a ws)) s))"

text \<open>
  The mutex of a board. The interruptible lock answers \<open>True\<close> when a signal ended the wait;
  a wait for a mutex nobody will release is a deadlock.
\<close>

definition mutex_lock :: "ptr \<Rightarrow> ('z kst_scheme, unit) km" where
  "mutex_lock p = kbind (get_dev p) (\<lambda>d.
     if dev_mut d then kfail Deadlock
     else kseq (upd_dev p (dev_mut_update (\<lambda>_. True))) (log_call (Sync (Mutex_lock p))))"

definition mutex_lock_interruptible :: "kenv \<Rightarrow> ptr \<Rightarrow> ('z kst_scheme, bool) km" where
  "mutex_lock_interruptible env p = kbind (kget k_log) (\<lambda>l.
     if lock_interrupted env l p then kret True
     else kseq (mutex_lock p) (kret False))"

definition mutex_unlock :: "ptr \<Rightarrow> ('z kst_scheme, unit) km" where
  "mutex_unlock p =
     kseq (upd_dev p (dev_mut_update (\<lambda>_. False))) (log_call (Sync (Mutex_unlock p)))"

section \<open>Accessors of \<open>pcieuni_ufn.c\<close>\<close>

definition pcieuni_set_drvdata :: "ptr \<Rightarrow> ptr \<Rightarrow> ('z kst_scheme, c_int) km" where
  "pcieuni_set_drvdata dev data =
     (if dev = NULL then kret 1
      else kseq (upd_dev dev (dev_str_update (\<lambda>_. data))) (kret 0))"

definition pcieuni_get_drvdata :: "ptr \<Rightarrow> ('z kst_scheme, ptr) km" where
  "pcieuni_get_drvdata dev =
     (if dev = NULL then kret NULL
      else kbind (get_dev dev) (\<lambda>d. if dev_str d \<noteq> NULL then kret (dev_str d) else kret NULL))"

definition pcieuni_get_pciedata :: "ptr \<Rightarrow> ('z kst_scheme, ptr) km" where
  "pcieuni_get_pciedata pdev = kget (\<lambda>s. k_drvdata s pdev)"

definition pcieuni_get_brdnum :: "ptr \<Rightarrow> ('z kst_scheme, c_int) km" where
  "pcieuni_get_brdnum pdev =
     kbind (kget (\<lambda>s. k_drvdata s pdev)) (\<lambda>dev.
     kbind (get_dev dev) (\<lambda>d. kret (brd_num d)))"

definition pcieuni_get_baddress :: "c_int \<Rightarrow> ptr \<Rightarrow> ('z kst_scheme, ptr) km" where
  "pcieuni_get_baddress br_num dev =
     (if br_num = 0 then kbind (get_dev dev) (\<lambda>d. kret (memmory_base (bar0 d)))
      else if br_num = 1 then kbind (get_dev dev) (\<lambda>d. kret (memmory_base (bar0 d)))
      else if br_num = 2 then kbind (get_dev dev) (\<lambda>d. kret (memmory_base (bar0 d)))
      else if br_num = 3 then kbind (get_dev dev) (\<lambda>d. kret (memmory_base (bar0 d)))
      else if br_num = 4 then kbind (get_dev dev) (\<lambda>d. kret (memmory_base (bar0 d)))
      else if br_num = 5 then kbind (get_dev dev) (\<lambda>d. kret (memmory_base (bar0 d)))
      else kret NULL)"

section \<open>Evaluation rules\<close>

lemma k_log_log_add [simp]: "k_log (log_add c s) = c # k_log s"
  by (simp add: log_add_def)

lemma log_add_frame [simp]:
  "k_dev (log_add c s) = k_dev s" "k_cdev (log_add c s) = k_cdev s"
  "k_priv (log_add c s) = k_priv s" "k_drvdata (log_add c s) = k_drvdata s"
  by (simp_all add: log_add_def)

lemma log_call_app [km_simps]: "log_call c s = Inr ((), log_add c s)"
  by (simp add: log_call_def kmod_def)

lemma klift_app [km_simps]: "klift f s = Inr (f s)"
  by (simp add: klift_def)

lemma get_dev_app [km_simps]: "p \<noteq> NULL \<Longrightarrow> k_dev s p = Some d \<Longrightarrow> get_dev p s = Inr (d, s)"
  by (simp add: get_dev_def)

lemma upd_dev_app [km_simps]:
  "p \<noteq> NULL \<Longrightarrow> k_dev s p = Some d \<Longrightarrow>
   upd_dev p f s = Inr ((), s\<lparr>k_dev := (k_dev s)(p \<mapsto> f d)\<rparr>)"
  by (simp add: upd_dev_def km_simps)

lemma get_cdev_app [km_simps]: "p \<noteq> NULL \<Longrightarrow> k_cdev s p = Some c \<Longrightarrow> get_cdev p s = Inr (c, s)"
  by (simp add: get_cdev_def)

lemma upd_cdev_app [km_simps]:
  "p \<noteq> NULL \<Longrightarrow> k_cdev s p = Some c \<Longrightarrow>
   upd_cdev p f s = Inr ((), s\<lparr>k_cdev := (k_cdev s)(p \<mapsto> f c)\<rparr>)"
  by (simp add: upd_cdev_def km_simps)

lemma get_dev_fault [km_simps]: "p = NULL \<or> k_dev s p = None \<Longrightarrow> get_dev p s = Inl NullDeref"
  by (auto simp: get_dev_def)

lemma upd_dev_fault [km_simps]: "p = NULL \<or> k_dev s p = None \<Longrightarrow> upd_dev p f s = Inl NullDeref"
  by (simp add: upd_dev_def km_simps)

lemma get_dev_eq_Inr:
  "get_dev p s = Inr (d, t) \<longleftrightarrow> p \<noteq> NULL \<and> k_dev s p = Some d \<and> t = s"
  by (auto simp: get_dev_def split: option.splits)

lemma upd_dev_eq_Inr:
  "upd_dev p f s = Inr (u, t) \<longleftrightarrow>
   p \<noteq> NULL \<and> (\<exists>d. k_dev s p = Some d \<and> t = s\<lparr>k_dev := (k_dev s)(p \<mapsto> f d)\<rparr>)"
  by (auto simp: upd_dev_def kbind_eq_Inr get_dev_eq_Inr kmod_app)

lemma get_cdev_eq_Inr:
  "get_cdev p s = Inr (c, t) \<longleftrightarrow> p \<noteq> NULL \<and> k_cdev s p = Some c \<and> t = s"
  by (auto simp: get_cdev_def split: option.splits)

lemma upd_cdev_eq_Inr:
  "upd_cdev p f s = Inr (u, t) \<longleftrightarrow>
   p \<noteq> NULL \<and> (\<exists>c. k_cdev s p = Some c \<and> t = s\<lparr>k_cdev := (k_cdev s)(p \<mapsto> f c)\<rparr>)"
  by (auto simp: upd_cdev_def kbind_eq_Inr get_cdev_eq_Inr kmod_app)

lemma mutex_lock_app [km_simps]:
  "p \<noteq> NULL \<Longrightarrow> k_dev s p = Some d \<Longrightarrow> \<not> dev_mut d \<Longrightarrow>
   mutex_lock p s =
     Inr ((), log_add (Sync (Mutex_lock p)) (s\<lparr>k_dev := (k_dev s)(p \<mapsto> d\<lparr>dev_mut := True\<rparr>)\<rparr>))"
  by (simp add: mutex_lock_def km_simps)

lemma mutex_lock_deadlock [km_simps]:
  "p \<noteq> NULL \<Longrightarrow> k_dev s p = Some d \<Longrightarrow> dev_mut d \<Longrightarrow> mutex_lock p s = Inl Deadlock"
  by (simp add: mutex_lock_def km_simps)

lemma mutex_lock_interruptible_signal [km_simps]:
  "lock_interrupted env (k_log s) p \<Longrightarrow> mutex_lock_interruptible env p s = Inr (True, s)"
  by (simp add: mutex_lock_interruptible_def km_simps)

lemma mutex_lock_interruptible_app [km_simps]:
  "\<not> lock_interrupted env (k_log s) p \<Longrightarrow> p \<noteq> NULL \<Longrightarrow> k_dev s p = Some d \<Longrightarrow> \<not> dev_mut d \<Longrightarrow>
   mutex_lock_interruptible env p s =
     Inr (False, log_add (Sync (Mutex_lock p)) (s\<lparr>k_dev := (k_dev s)(p \<mapsto> d\<lparr>dev_mut := True\<rparr>)\<rparr>))"
  by (simp add: mutex_lock_interruptible_def km_simps)

lemma mutex_lock_interruptible_deadlock [km_simps]:
  "\<not> lock_interrupted env (k_log s) p \<Longrightarrow> p \<noteq> NULL \<Longrightarrow> k_dev s p = Some d \<Longrightarrow> dev_mut d \<Longrightarrow>
   mutex_lock_interruptible env p s = Inl Deadlock"
  by (simp add: mutex_lock_interruptible_def km_simps)

lemma mutex_unlock_app [km_simps]:
  "p \<noteq> NULL \<Longrightarrow> k_dev s p = Some d \<Longrightarrow>
   mutex_unlock p s =
     Inr ((), log_add (Sync (Mutex_unlock p)) (s\<lparr>k_dev := (k_dev s)(p \<mapsto> d\<lparr>dev_mut := False\<rparr>)\<rparr>))"
  by (simp add: mutex_unlock_def km_simps)

section \<open>Properties of the accessors\<close>

lemma drvdata_roundtrip:
  assumes "pcieuni_set_drvdata dev data s = Inr (r, t)" and "dev \<noteq> NULL"
  shows "r = 0 \<and> pcieuni_get_drvdata dev t = Inr (data, t)"
  using assms
  by (auto simp: pcieuni_set_drvdata_def pcieuni_get_drvdata_def kseq_eq_Inr kbind_def
      upd_dev_eq_Inr kret_app get_dev_app)

lemma baddress_always_bar0:
  assumes "dev \<noteq> NULL" and "k_dev s dev = Some d"
  shows "pcieuni_get_baddress br dev s =
    Inr (if unat br \<le> 5 then memmory_base (bar0 d) else NULL, s)"
proof -
  have "unat br \<le> 5 \<longleftrightarrow> br = 0 \<or> br = 1 \<or> br = 2 \<or> br = 3 \<or> br = 4 \<or> br = 5"
    by (auto simp: unat_arith_simps)
  with assms show ?thesis by (auto simp: pcieuni_get_baddress_def km_simps)
qed

end
