(* ===== verification/Rw_No_Struct.thy ===== *)
theory Rw_No_Struct
  imports Device_Data
begin

text \<open>
  \<open>pcieuni_rw_no_struct_exp.c\<close>: the positional read and write of the character device. The
  file position carries the BAR number in bits 60 to 62 and the byte offset inside the BAR
  below; \<open>checkAndCalculateTransferInformation\<close> decodes and checks it, and the two handlers
  copy one 32-bit word per iteration between device registers and user memory.

  The loops count bytes in an \<open>unsigned int\<close>, so they are partial functions on 32-bit words:
  a loop that has no result runs for ever. Their common contract is the locale \<open>word_loop\<close>,
  interpreted for the read and for the write loop.
\<close>

section \<open>Transfer information\<close>

record transfer_information =
  bar :: u32
  offset :: u64
  barSizeInBytes :: u64
  barStart :: ptr
  barEnd :: ptr
  nBytesToTransfer :: u32

text \<open>
  \<open>sizeof(u32)\<close> is 4; adding \<open>n\<close> to the \<open>u32\<close> pointer \<open>barStart\<close> adds \<open>4 * n\<close> bytes. The
  structure is uninitialised on entry, so it is an argument.
\<close>

definition checkAndCalculateTransferInformation ::
  "pcieuni_dev \<Rightarrow> u64 \<Rightarrow> loff \<Rightarrow> transfer_information \<Rightarrow> c_int \<times> transfer_information" where
  "checkAndCalculateTransferInformation deviceData count virtualOffset ti =
     (if dev_sts deviceData = 0 then (- EFAULT, ti)
      else if sint virtualOffset smod 4 \<noteq> 0 then (- EFAULT, ti)
      else if count mod 4 \<noteq> 0 then (- EFAULT, ti)
      else
        let ti = ti\<lparr>bar := ucast (signed_drop_bit 60 virtualOffset AND 0x7),
                    offset := virtualOffset AND 0x0FFFFFFFFFFFFFFF\<rparr>
        in case dev_bar deviceData (unat (bar ti)) of
             None \<Rightarrow> (- EFAULT, ti)
           | Some b \<Rightarrow>
               let ti = ti\<lparr>barStart := memmory_base b,
                           barSizeInBytes := ucast (mem_base_end b - mem_base b)\<rparr>
               in if barStart ti = NULL then (- EFAULT, ti)
                  else
                    let ti = ti\<lparr>barEnd := barStart ti + 4 * (barSizeInBytes ti div 4)\<rparr>
                    in if offset ti > barSizeInBytes ti then (- EFAULT, ti)
                       else (0, ti\<lparr>nBytesToTransfer :=
                              ucast (if barSizeInBytes ti < offset ti + count
                                     then barSizeInBytes ti - offset ti else count)\<rparr>))"

text \<open>The offsets of the BARs in the address space of the character device.\<close>

definition PCIEUNI_BAR_OFFSETS :: "loff list" where
  "PCIEUNI_BAR_OFFSETS =
     [0, push_bit 60 1, push_bit 60 2, push_bit 60 3, push_bit 60 4, push_bit 60 5]"

section \<open>The handlers\<close>

text \<open>
  One iteration of the read loop: \<open>True\<close> when the copy to user space failed. The position of
  the word is computed as in the source, by word index.
\<close>

definition read_word ::
  "kenv \<Rightarrow> ptr \<Rightarrow> u64 \<Rightarrow> ptr \<Rightarrow> u32 \<Rightarrow> 'z kst_scheme \<Rightarrow> bool \<times> 'z kst_scheme" where
  "read_word env start off buf n s =
     (let (outputWord, s1) = ioread32 env (start + 4 * ((off + ucast n) div 4)) s;
          (fails, s2) = copy_to_user env (buf + ucast n) [outputWord] s1
      in if fails then (True, s2) else (False, log_add (Io Rmb) s2))"

definition write_word ::
  "kenv \<Rightarrow> ptr \<Rightarrow> u64 \<Rightarrow> ptr \<Rightarrow> u32 \<Rightarrow> 'z kst_scheme \<Rightarrow> bool \<times> 'z kst_scheme" where
  "write_word env start off buf n s =
     (case copy_from_user env (buf + ucast n) 1 s of
        (None, s1) \<Rightarrow> (True, s1)
      | (Some ws, s1) \<Rightarrow>
          (False, log_add (Io Wmb)
                    (iowrite32 (hd ws) (start + 4 * ((off + ucast n) div 4)) s1)))"

partial_function (option) read_loop ::
  "kenv \<Rightarrow> ptr \<Rightarrow> u64 \<Rightarrow> ptr \<Rightarrow> u32 \<Rightarrow> u32 \<Rightarrow> 'z kst_scheme \<Rightarrow> (u32 \<times> 'z kst_scheme) option" where
  "read_loop env start off buf nBytes n s =
     (if n < nBytes then
        (let (fails, s') = read_word env start off buf n s
         in if fails then Some (n, s') else read_loop env start off buf nBytes (n + 4) s')
      else Some (n, s))"

partial_function (option) write_loop ::
  "kenv \<Rightarrow> ptr \<Rightarrow> u64 \<Rightarrow> ptr \<Rightarrow> u32 \<Rightarrow> u32 \<Rightarrow> 'z kst_scheme \<Rightarrow> (u32 \<times> 'z kst_scheme) option" where
  "write_loop env start off buf nBytes n s =
     (if n < nBytes then
        (let (fails, s') = write_word env start off buf n s
         in if fails then Some (n, s') else write_loop env start off buf nBytes (n + 4) s')
      else Some (n, s))"

text \<open>
  Both handlers return the value and the new file position. After a failed copy they unlock
  the mutex, advance the position and return the count exactly as after a complete loop.
\<close>

definition pcieuni_read_no_struct_exp ::
  "kenv \<Rightarrow> transfer_information \<Rightarrow> ptr \<Rightarrow> ptr \<Rightarrow> u64 \<Rightarrow> loff \<Rightarrow> ('z kst_scheme, ssize \<times> loff) km" where
  "pcieuni_read_no_struct_exp env junk filp buf count f_pos =
     kbind (kget (\<lambda>s. k_priv s filp)) (\<lambda>dev.
     kbind (get_dev dev) (\<lambda>deviceData.
     let (transferInfoError, ti) =
           checkAndCalculateTransferInformation deviceData count f_pos junk
     in if transferInfoError \<noteq> 0 then kret (scast transferInfoError, f_pos)
        else
          kbind (mutex_lock_interruptible env dev) (\<lambda>interrupted.
          if interrupted then kret (scast (- ERESTARTSYS), f_pos)
          else
            kbind (kloop (\<lambda>s. map_option Inr
                     (read_loop env (barStart ti) (offset ti) buf (nBytesToTransfer ti) 0 s)))
            (\<lambda>n.
            kseq (mutex_unlock dev) (kret (ucast n, f_pos + ucast n))))))"

definition pcieuni_write_no_struct_exp ::
  "kenv \<Rightarrow> transfer_information \<Rightarrow> ptr \<Rightarrow> ptr \<Rightarrow> u64 \<Rightarrow> loff \<Rightarrow> ('z kst_scheme, ssize \<times> loff) km" where
  "pcieuni_write_no_struct_exp env junk filp buf count f_pos =
     kbind (kget (\<lambda>s. k_priv s filp)) (\<lambda>dev.
     kbind (get_dev dev) (\<lambda>deviceData.
     let (transferInfoError, ti) =
           checkAndCalculateTransferInformation deviceData count f_pos junk
     in if transferInfoError \<noteq> 0 then kret (scast transferInfoError, f_pos)
        else
          kbind (mutex_lock_interruptible env dev) (\<lambda>interrupted.
          if interrupted then kret (scast (- ERESTARTSYS), f_pos)
          else
            kbind (kloop (\<lambda>s. map_option Inr
                     (write_loop env (barStart ti) (offset ti) buf (nBytesToTransfer ti) 0 s)))
            (\<lambda>n.
            kseq (mutex_unlock dev) (kret (ucast n, f_pos + ucast n))))))"


section \<open>The contract of a word loop\<close>

text \<open>
  The reference behaviour of both loops: run the body over a list of byte counts until it
  fails, and count the words done.
\<close>

fun run_words :: "(u32 \<Rightarrow> 's \<Rightarrow> bool \<times> 's) \<Rightarrow> u32 list \<Rightarrow> 's \<Rightarrow> nat \<times> 's" where
  "run_words body [] s = (0, s)"
| "run_words body (n # ns) s =
     (let (fails, s') = body n s
      in if fails then (0, s')
         else let (k, t) = run_words body ns s' in (Suc k, t))"

definition word_offsets :: "nat \<Rightarrow> nat \<Rightarrow> u32 list" where
  "word_offsets i k = map (\<lambda>j. of_nat (4 * j)) [i..<k]"

text \<open>The number of words a loop over \<open>N\<close> bytes moves: the last one may be cut.\<close>

definition words_of :: "u32 \<Rightarrow> nat" where
  "words_of N = (unat N + 3) div 4"

lemma word_offsets_Cons: "i < k \<Longrightarrow> word_offsets i k = of_nat (4 * i) # word_offsets (Suc i) k"
  by (simp add: word_offsets_def upt_conv_Cons)

lemma word_offsets_Nil [simp]: "word_offsets k k = []"
  by (simp add: word_offsets_def)

lemma run_words_le: "fst (run_words body ns s) \<le> length ns"
  by (induction ns arbitrary: s) (auto split: prod.splits, (metis fst_conv)+)

lemma run_words_all:
  assumes "\<And>n s. \<not> fst (body n s)"
  shows "fst (run_words body ns s) = length ns"
  using assms
  by (induction ns arbitrary: s) (auto split: prod.splits, (metis fst_conv)+)

text \<open>
  Induction over a run: \<open>P j\<close> describes the state after \<open>j\<close> words, \<open>Q j\<close> the state in which
  the run ends after \<open>j\<close> words.
\<close>

lemma run_words_induct:
  assumes run: "run_words body (word_offsets i K) s = (k, t)"
    and start: "P i s" and le: "i \<le> K"
    and step: "\<And>j s s'. j < K \<Longrightarrow> P j s \<Longrightarrow> body (of_nat (4 * j)) s = (False, s') \<Longrightarrow> P (Suc j) s'"
    and fail: "\<And>j s s'. j < K \<Longrightarrow> P j s \<Longrightarrow> body (of_nat (4 * j)) s = (True, s') \<Longrightarrow> Q j s'"
    and stop: "\<And>s. P K s \<Longrightarrow> Q K s"
  shows "Q (i + k) t"
  using run start le
proof (induction "K - i" arbitrary: i s k)
  case 0
  then have "i = K" by simp
  with 0 stop show ?case by simp
next
  case (Suc m)
  then have i: "i < K" by simp
  obtain fails s' where b: "body (of_nat (4 * i)) s = (fails, s')" by (cases "body (of_nat (4 * i)) s")
  show ?case
  proof (cases fails)
    case True
    with Suc.prems i b have "k = 0" "t = s'" by (simp_all add: word_offsets_Cons)
    with fail [OF i] Suc.prems(2) b True show ?thesis by simp
  next
    case False
    with Suc.prems i b obtain k' where k': "run_words body (word_offsets (Suc i) K) s' = (k', t)" "k = Suc k'"
      by (auto simp: word_offsets_Cons split: prod.splits)
    have "Q (Suc i + k') t"
      using Suc.hyps(1) [OF _ k'(1)] Suc.hyps(2) step [OF i Suc.prems(2)] b False i by simp
    with k' show ?thesis by simp
  qed
qed

locale word_loop =
  fixes loop :: "u32 \<Rightarrow> u32 \<Rightarrow> 's \<Rightarrow> (u32 \<times> 's) option"
    and body :: "u32 \<Rightarrow> 's \<Rightarrow> bool \<times> 's"
  assumes loop_stop: "\<not> n < N \<Longrightarrow> loop N n s = Some (n, s)"
    and loop_fail: "n < N \<Longrightarrow> body n s = (True, s') \<Longrightarrow> loop N n s = Some (n, s')"
    and loop_next: "n < N \<Longrightarrow> body n s = (False, s') \<Longrightarrow> loop N n s = loop N (n + 4) s'"
    and loop_trap: "(\<And>n s. P n s \<Longrightarrow> n < N \<and> \<not> fst (body n s) \<and> P (n + 4) (snd (body n s)))
                    \<Longrightarrow> P n s \<Longrightarrow> loop N n s = None"
begin

lemma loop_run_from:
  assumes N: "unat N + 3 < 2 ^ 32" and "i \<le> words_of N"
    and "run_words body (word_offsets i (words_of N)) s = (k, t)"
  shows "loop N (of_nat (4 * i)) s = Some (of_nat (4 * (i + k)), t)"
  using assms(2,3)
proof (induction "words_of N - i" arbitrary: i s k)
  case 0
  then have i: "i = words_of N" by simp
  have "unat (of_nat (4 * i) :: u32) = 4 * i"
    using N i by (intro unat_of_nat_small) (simp add: words_of_def)
  then have "\<not> of_nat (4 * i) < N"
    using i by (simp add: word_less_nat_alt words_of_def del: of_nat_mult)
  with 0 i show ?case by (simp add: loop_stop del: of_nat_mult)
next
  case (Suc m)
  then have i: "i < words_of N" by simp
  have u: "unat (of_nat (4 * i) :: u32) = 4 * i"
    using N i by (intro unat_of_nat_small) (simp add: words_of_def)
  then have lt: "of_nat (4 * i) < N"
    using i by (simp add: word_less_nat_alt words_of_def del: of_nat_mult)
  obtain fails s' where b: "body (of_nat (4 * i)) s = (fails, s')"
    by (cases "body (of_nat (4 * i)) s")
  show ?case
  proof (cases fails)
    case True
    with Suc.prems i b have "k = 0" "t = s'"
      by (simp_all add: word_offsets_Cons del: of_nat_mult)
    with loop_fail [OF lt] b True show ?thesis by (simp del: of_nat_mult)
  next
    case False
    with Suc.prems i b obtain k' where k': "k = Suc k'"
      and r: "run_words body (word_offsets (Suc i) (words_of N)) s' = (k', t)"
      by (auto simp: word_offsets_Cons simp del: of_nat_mult split: prod.splits)
    have "loop N (of_nat (4 * i)) s = loop N (of_nat (4 * Suc i)) s'"
      using loop_next [OF lt] b False by (simp add: add.commute)
    also have "\<dots> = Some (of_nat (4 * (Suc i + k')), t)"
      using Suc.hyps(1) [of "Suc i"] Suc.hyps(2) i r by simp
    finally show ?thesis using k' by (simp del: of_nat_mult)
  qed
qed

lemma loop_run:
  assumes "unat N + 3 < 2 ^ 32"
    and "run_words body (word_offsets 0 (words_of N)) s = (k, t)"
  shows "loop N 0 s = Some (of_nat (4 * k), t)"
  using loop_run_from [OF assms(1) _ assms(2)] by simp

lemma loop_diverges:
  assumes N: "2 ^ 32 \<le> unat N + 3"
    and body: "\<And>n s. Q s \<Longrightarrow> \<not> fst (body n s) \<and> Q (snd (body n s))" and "Q s"
  shows "loop N 0 s = None"
proof (rule loop_trap [where P = "\<lambda>n s. 4 dvd unat n \<and> Q s"])
  fix n :: u32 and s assume P: "4 dvd unat n \<and> Q s"
  have "unat n < 2 ^ 32" by (rule unat_u32_less)
  with P N have "unat n < unat N" by (auto elim!: dvdE)
  moreover have "4 dvd unat (n + 4)"
    using P by (simp add: unat_word_ariths dvd_mod)
  ultimately show "n < N \<and> \<not> fst (body n s) \<and> 4 dvd unat (n + 4) \<and> Q (snd (body n s))"
    using P body by (simp add: word_less_nat_alt)
next
  show "4 dvd unat (0 :: u32) \<and> Q s" using assms(3) by simp
qed

end

text \<open>A loop started inside a set of states that never fails and never leaves has no result.\<close>

lemma read_loop_trap:
  assumes trap: "\<And>n s. P n s \<Longrightarrow> n < N \<and> \<not> fst (read_word env start off buf n s)
                   \<and> P (n + 4) (snd (read_word env start off buf n s))"
    and "P n s"
  shows "read_loop env start off buf N n s = None"
proof (rule ccontr)
  assume "read_loop env start off buf N n s \<noteq> None"
  then obtain r where r: "read_loop env start off buf N n s = Some r" by blast
  let ?here = "\<lambda>e st ofs b M. e = env \<and> st = start \<and> ofs = off \<and> b = buf \<and> M = N"
  have "\<not> (?here env start off buf N \<and> P n s)"
  proof (rule read_loop.raw_induct
      [where P = "\<lambda>e st ofs b M n s r. \<not> (?here e st ofs b M \<and> P n s)", OF _ r])
    fix f e st ofs b M n s r
    assume IH: "\<And>e st ofs b M n s r. f e st ofs b M n s = Some r \<Longrightarrow> \<not> (?here e st ofs b M \<and> P n s)"
      and eq: "(if n < M then
                  (let (fails, s') = read_word e st ofs b n s
                   in if fails then Some (n, s') else f e st ofs b M (n + 4) s')
                else Some (n, s)) = Some r"
    show "\<not> (?here e st ofs b M \<and> P n s)"
      using trap [of n s] eq IH by (fastforce split: prod.splits if_splits)
  qed
  with assms(2) show False by simp
qed

lemma write_loop_trap:
  assumes trap: "\<And>n s. P n s \<Longrightarrow> n < N \<and> \<not> fst (write_word env start off buf n s)
                   \<and> P (n + 4) (snd (write_word env start off buf n s))"
    and "P n s"
  shows "write_loop env start off buf N n s = None"
proof (rule ccontr)
  assume "write_loop env start off buf N n s \<noteq> None"
  then obtain r where r: "write_loop env start off buf N n s = Some r" by blast
  let ?here = "\<lambda>e st ofs b M. e = env \<and> st = start \<and> ofs = off \<and> b = buf \<and> M = N"
  have "\<not> (?here env start off buf N \<and> P n s)"
  proof (rule write_loop.raw_induct
      [where P = "\<lambda>e st ofs b M n s r. \<not> (?here e st ofs b M \<and> P n s)", OF _ r])
    fix f e st ofs b M n s r
    assume IH: "\<And>e st ofs b M n s r. f e st ofs b M n s = Some r \<Longrightarrow> \<not> (?here e st ofs b M \<and> P n s)"
      and eq: "(if n < M then
                  (let (fails, s') = write_word e st ofs b n s
                   in if fails then Some (n, s') else f e st ofs b M (n + 4) s')
                else Some (n, s)) = Some r"
    show "\<not> (?here e st ofs b M \<and> P n s)"
      using trap [of n s] eq IH by (fastforce split: prod.splits if_splits)
  qed
  with assms(2) show False by simp
qed

interpretation rl: word_loop "read_loop env start off buf" "read_word env start off buf"
  for env start off buf
proof
  fix N n :: u32 and s s' :: "'a kst_scheme"
  show "\<not> n < N \<Longrightarrow> read_loop env start off buf N n s = Some (n, s)"
    by (simp add: read_loop.simps)
  show "n < N \<Longrightarrow> read_word env start off buf n s = (True, s') \<Longrightarrow>
    read_loop env start off buf N n s = Some (n, s')"
    by (simp add: read_loop.simps)
  show "n < N \<Longrightarrow> read_word env start off buf n s = (False, s') \<Longrightarrow>
    read_loop env start off buf N n s = read_loop env start off buf N (n + 4) s'"
    by (subst read_loop.simps) simp
next
  fix P :: "u32 \<Rightarrow> 'a kst_scheme \<Rightarrow> bool" and N n s
  assume "\<And>n s. P n s \<Longrightarrow> n < N \<and> \<not> fst (read_word env start off buf n s)
            \<and> P (n + 4) (snd (read_word env start off buf n s))" and "P n s"
  then show "read_loop env start off buf N n s = None" by (rule read_loop_trap [of P])
qed

interpretation wl: word_loop "write_loop env start off buf" "write_word env start off buf"
  for env start off buf
proof
  fix N n :: u32 and s s' :: "'a kst_scheme"
  show "\<not> n < N \<Longrightarrow> write_loop env start off buf N n s = Some (n, s)"
    by (simp add: write_loop.simps)
  show "n < N \<Longrightarrow> write_word env start off buf n s = (True, s') \<Longrightarrow>
    write_loop env start off buf N n s = Some (n, s')"
    by (simp add: write_loop.simps)
  show "n < N \<Longrightarrow> write_word env start off buf n s = (False, s') \<Longrightarrow>
    write_loop env start off buf N n s = write_loop env start off buf N (n + 4) s'"
    by (subst write_loop.simps) simp
next
  fix P :: "u32 \<Rightarrow> 'a kst_scheme \<Rightarrow> bool" and N n s
  assume "\<And>n s. P n s \<Longrightarrow> n < N \<and> \<not> fst (write_word env start off buf n s)
            \<and> P (n + 4) (snd (write_word env start off buf n s))" and "P n s"
  then show "write_loop env start off buf N n s = None" by (rule write_loop_trap [of P])
qed

section \<open>Decoding and checking a request\<close>

lemma unat_bar_bits: "unat (signed_drop_bit 60 (v :: loff) AND 7) = unat v div 2 ^ 60 mod 8"
proof -
  have 7: "(7 :: 64 word) = mask 3" by (simp add: mask_eq_exp_minus_1)
  have "signed_drop_bit 60 v AND 7 = take_bit 3 (drop_bit 60 v)"
    unfolding 7 by (rule bit_word_eqI) (auto simp: bit_simps)
  then have "signed_drop_bit 60 v AND 7 = v div 2 ^ 60 mod 8"
    by (simp add: take_bit_eq_mod drop_bit_eq_div)
  then show ?thesis by (simp add: unat_div unat_mod)
qed

lemma unat_offset_bits: "unat ((v :: loff) AND 0x0FFFFFFFFFFFFFFF) = unat v mod 2 ^ 60"
proof -
  have m: "(0x0FFFFFFFFFFFFFFF :: 64 word) = mask 60" by (simp add: mask_eq_exp_minus_1)
  have "v AND 0x0FFFFFFFFFFFFFFF = v mod 2 ^ 60"
    unfolding m by (simp only: take_bit_eq_mask [symmetric] take_bit_eq_mod)
  then show ?thesis by (simp add: unat_mod)
qed

text \<open>The number of the BAR and the offset in it, as numbers.\<close>

definition pos_bar :: "loff \<Rightarrow> nat" where
  "pos_bar v = unat v div 2 ^ 60 mod 8"

definition pos_offset :: "loff \<Rightarrow> nat" where
  "pos_offset v = unat v mod 2 ^ 60"

text \<open>
  The size the driver computes for a BAR. \<open>mem_base_end\<close> is the address of the last byte, so
  this is one less than the number of bytes.
\<close>

definition bar_size :: "pcieuni_bar \<Rightarrow> nat" where
  "bar_size b = unat (mem_base_end b - mem_base b)"

definition valid_request :: "pcieuni_dev \<Rightarrow> u64 \<Rightarrow> loff \<Rightarrow> bool" where
  "valid_request d count v \<longleftrightarrow>
     dev_sts d \<noteq> 0 \<and> 4 dvd unat v \<and> 4 dvd unat count \<and>
     (case dev_bar d (pos_bar v) of None \<Rightarrow> False
      | Some b \<Rightarrow> memmory_base b \<noteq> NULL \<and> pos_offset v \<le> bar_size b)"

lemma bar_size_less: "bar_size b < 2 ^ 32"
  unfolding bar_size_def by (rule unat_u32_less)

lemma dev_bar_less: "dev_bar d k = Some b \<Longrightarrow> k < 6"
  by (auto simp: dev_bar_def split: if_splits)

lemma unat_ucast_bar: "unat (ucast (signed_drop_bit 60 (v :: loff) AND 7) :: u32) = pos_bar v"
proof -
  have "unat (signed_drop_bit 60 v AND 7) < 2 ^ 32"
    by (simp add: unat_bar_bits less_trans [OF mod_less_divisor [of 8]])
  then show ?thesis
    by (simp add: unsigned_ucast_eq take_bit_nat_eq_self unat_bar_bits pos_bar_def)
qed

lemma check_code:
  "fst (checkAndCalculateTransferInformation d count v ti) =
     (if valid_request d count v then 0 else - EFAULT)"
  by (auto simp: checkAndCalculateTransferInformation_def valid_request_def Let_def
      sint_smod_4_eq_0_iff word_mod_4_eq_0 unat_ucast_bar word_less_nat_alt unat_offset_bits
      pos_offset_def bar_size_def split: option.splits)

lemma check_info:
  assumes "checkAndCalculateTransferInformation d count v junk = (0, ti)"
    and nowrap: "pos_offset v + unat count < 2 ^ 64"
  obtains b where "dev_bar d (pos_bar v) = Some b" "memmory_base b \<noteq> NULL"
    "barStart ti = memmory_base b" "unat (offset ti) = pos_offset v"
    "4 dvd pos_offset v" "4 dvd unat count" "dev_sts d \<noteq> 0" "pos_offset v \<le> bar_size b"
    "unat (nBytesToTransfer ti) = min (unat count) (bar_size b - pos_offset v)"
proof -
  have valid: "valid_request d count v"
    using check_code [of d count v junk] assms(1) by (simp split: if_splits)
  then obtain b where b: "dev_bar d (pos_bar v) = Some b" "memmory_base b \<noteq> NULL"
    "pos_offset v \<le> bar_size b"
    by (auto simp: valid_request_def split: option.splits)
  have al: "4 dvd pos_offset v" "4 dvd unat count" "dev_sts d \<noteq> 0"
    using valid by (auto simp: valid_request_def pos_offset_def dvd_mod)
  let ?size = "ucast (mem_base_end b - mem_base b) :: u64"
  let ?off = "v AND 0x0FFFFFFFFFFFFFFF"
  have size: "unat ?size = bar_size b" by (simp add: bar_size_def)
  have off: "unat ?off = pos_offset v" by (simp add: unat_offset_bits pos_offset_def)
  have sum: "unat (?off + count) = pos_offset v + unat count"
    using nowrap off by (simp add: unat_word_ariths)
  let ?n = "if ?size < ?off + count then ?size - ?off else count"
  have n: "unat ?n = min (unat count) (bar_size b - pos_offset v)"
  proof (cases "?size < ?off + count")
    case True
    then have "bar_size b < pos_offset v + unat count"
      using sum size by (simp add: word_less_nat_alt)
    moreover have "unat (?size - ?off) = bar_size b - pos_offset v"
      using b(3) size off by (subst unat_sub) (simp_all add: word_le_nat_alt)
    ultimately show ?thesis using True by simp
  next
    case False
    then have "pos_offset v + unat count \<le> bar_size b"
      using sum size by (simp add: word_less_nat_alt)
    then show ?thesis using False by simp
  qed
  have "unat (ucast ?n :: u32) = min (unat count) (bar_size b - pos_offset v)"
    using n bar_size_less [of b]
    by (simp only: unsigned_ucast_eq) (simp add: take_bit_nat_eq_self)
  moreover have "ti = junk\<lparr>bar := ucast (signed_drop_bit 60 v AND 7), offset := ?off,
      barStart := memmory_base b, barSizeInBytes := ?size,
      barEnd := memmory_base b + 4 * (?size div 4), nBytesToTransfer := ucast ?n\<rparr>"
    using assms(1) b(1)
    by (auto simp: checkAndCalculateTransferInformation_def Let_def unat_ucast_bar split: if_splits)
  ultimately show ?thesis using that b al off by simp
qed

section \<open>One word, and a run of words\<close>

text \<open>The register a byte count addresses, when offset and count are aligned.\<close>

lemma word_count: "4 * j < 2 ^ 32 \<Longrightarrow> ucast (of_nat (4 * j) :: u32) = (of_nat (4 * j) :: u64)"
  by (intro word_unat_eq_iff [THEN iffD2]) (simp add: unat_of_nat_small del: of_nat_mult)

lemma word_addr:
  fixes off start :: u64
  assumes "4 dvd unat off" and "unat off + 4 * j < 2 ^ 64"
  shows "start + 4 * ((off + of_nat (4 * j)) div 4) = start + off + of_nat (4 * j)"
proof -
  let ?x = "off + of_nat (4 * j)"
  have "unat ?x = unat off + 4 * j"
    using assms(2) by (simp add: unat_word_ariths unat_of_nat_small del: of_nat_mult)
  then have "?x mod 4 = 0" using assms(1) by (simp add: word_mod_4_eq_0 del: of_nat_mult)
  then have "4 * (?x div 4) = ?x"
    using mult_div_mod_eq [of 4 ?x] by simp
  then show ?thesis by (simp add: add.assoc del: of_nat_mult)
qed

lemma read_word_eq:
  "read_word env start off buf n s =
     (let a = start + 4 * ((off + ucast n) div 4); w = ioread32_ret env (k_log s) a;
          l = Io (Ioread32 a w) # k_log s
      in if copy_to_user_fails env l (buf + ucast n) then (True, s\<lparr>k_log := l\<rparr>)
         else (False, s\<lparr>k_log := Io Rmb # Io (Copy_to_user (buf + ucast n) [w]) # l\<rparr>))"
  by (simp add: read_word_def ioread32_def copy_to_user_def log_add_def Let_def)

lemma write_word_eq:
  "write_word env start off buf n s =
     (if copy_from_user_fails env (k_log s) (buf + ucast n) then (True, s)
      else let w = user_word env (k_log s) (buf + ucast n)
           in (False, s\<lparr>k_log := Io Wmb # Io (Iowrite32 w (start + 4 * ((off + ucast n) div 4)))
                          # Io (Copy_from_user (buf + ucast n) [w]) # k_log s\<rparr>))"
  by (simp add: write_word_def copy_from_user_def iowrite32_def log_add_def Let_def)

text \<open>The registers of the first \<open>j\<close> words of a transfer.\<close>

definition regs_of :: "ptr \<Rightarrow> u64 \<Rightarrow> nat \<Rightarrow> ptr set" where
  "regs_of start off j = (\<lambda>m. start + off + of_nat (4 * m)) ` {..<j}"

lemma regs_of_mono: "i \<le> j \<Longrightarrow> regs_of start off i \<subseteq> regs_of start off j"
  by (auto simp: regs_of_def)

lemma regs_of_Suc:
  "regs_of start off (Suc j) = insert (start + off + of_nat (4 * j)) (regs_of start off j)"
  by (simp add: regs_of_def lessThan_Suc del: of_nat_mult)

lemma of_nat_inj_u64:
  "m < 2 ^ 30 \<Longrightarrow> n < 2 ^ 30 \<Longrightarrow> (of_nat (4 * m) :: u64) = of_nat (4 * n) \<longleftrightarrow> m = n"
  by (subst word_unat_eq_iff) (simp add: unat_of_nat_small del: of_nat_mult)

text \<open>
  What a run of the read body leaves after \<open>j\<close> words: only the log has grown, by no register
  write; the registers read are among the first \<open>i\<close>; every word done has arrived in user
  memory. \<open>R\<close> is what is known of the values the registers deliver.
\<close>

definition words_read ::
  "(ptr \<Rightarrow> u32 \<Rightarrow> bool) \<Rightarrow> ptr \<Rightarrow> u64 \<Rightarrow> ptr \<Rightarrow> 'z kst_scheme \<Rightarrow> nat \<Rightarrow> nat \<Rightarrow> 'z kst_scheme \<Rightarrow> bool"
  where
  "words_read R start off buf s i j t \<longleftrightarrow> (\<exists>new. t = s\<lparr>k_log := new @ k_log s\<rparr> \<and>
     reg_written (new @ k_log s) = reg_written (k_log s) \<and>
     set (io_addrs new) \<subseteq> regs_of start off i \<and>
     (\<forall>m<j. \<exists>w. copied_out new (buf + of_nat (4 * m)) = Some w \<and> R (start + off + of_nat (4 * m)) w))"

text \<open>The same for the write body; \<open>R\<close> is what is known of the user's words.\<close>

definition words_written ::
  "(ptr \<Rightarrow> u32 \<Rightarrow> bool) \<Rightarrow> ptr \<Rightarrow> u64 \<Rightarrow> ptr \<Rightarrow> 'z kst_scheme \<Rightarrow> nat \<Rightarrow> 'z kst_scheme \<Rightarrow> bool" where
  "words_written R start off buf s j t \<longleftrightarrow> (\<exists>new. t = s\<lparr>k_log := new @ k_log s\<rparr> \<and>
     set (io_addrs new) \<subseteq> regs_of start off j \<and>
     (\<forall>m<j. \<exists>w. reg_written new (start + off + of_nat (4 * m)) = Some w \<and> R (buf + of_nat (4 * m)) w))"

lemma copied_out_read:
  "copied_out (Io Rmb # Io (Copy_to_user b [w]) # Io (Ioread32 a v) # l) x =
     (if x = b then Some w else copied_out l x)"
  using copied_out_word [of b w "Io (Ioread32 a v) # l" x] by simp

lemma words_read_step:
  assumes "words_read R start off buf s j j s1"
    and step: "read_word env start off buf (of_nat (4 * j)) s1 = (fails, s2)"
    and off: "4 dvd unat off" "unat off + 4 * j < 2 ^ 64" and j: "j < 2 ^ 30"
    and R: "\<And>l a. reg_written l = reg_written (k_log s) \<Longrightarrow> R a (ioread32_ret env l a)"
  shows "words_read R start off buf s (Suc j) (if fails then j else Suc j) s2"
proof -
  from assms(1) obtain new where new: "s1 = s\<lparr>k_log := new @ k_log s\<rparr>"
    "reg_written (new @ k_log s) = reg_written (k_log s)"
    "set (io_addrs new) \<subseteq> regs_of start off j"
    "\<forall>m<j. \<exists>w. copied_out new (buf + of_nat (4 * m)) = Some w \<and> R (start + off + of_nat (4 * m)) w"
    unfolding words_read_def by blast
  define a where "a = start + off + of_nat (4 * j)"
  define w where "w = ioread32_ret env (new @ k_log s) a"
  let ?rd = "Io (Ioread32 a w) # new"
  let ?cp = "Io Rmb # Io (Copy_to_user (buf + of_nat (4 * j)) [w]) # ?rd"
  have log: "s2 = s\<lparr>k_log := (if fails then ?rd else ?cp) @ k_log s\<rparr>"
    using step word_count [of j] word_addr [OF off, of start] j
    by (auto simp: read_word_eq Let_def new(1) a_def w_def add.assoc simp del: of_nat_mult split: if_splits)
  have addrs: "set (io_addrs ?rd) \<subseteq> regs_of start off (Suc j)"
    using new(3) by (auto simp: regs_of_Suc a_def simp del: of_nat_mult)
  have "R a w" using R new(2) by (simp add: w_def)
  then have "\<forall>m<Suc j. \<exists>w. copied_out ?cp (buf + of_nat (4 * m)) = Some w \<and> R (start + off + of_nat (4 * m)) w"
    using new(4) j
    by (auto simp: copied_out_read of_nat_inj_u64 less_Suc_eq a_def
        simp del: of_nat_mult copied_out.simps)
  with log addrs new(2,4) show ?thesis unfolding words_read_def
    by (intro exI [of _ "if fails then ?rd else ?cp"]) (auto simp: fun_eq_iff)
qed

lemma words_written_step:
  assumes "words_written R start off buf s j s1"
    and step: "write_word env start off buf (of_nat (4 * j)) s1 = (fails, s2)"
    and off: "4 dvd unat off" "unat off + 4 * j < 2 ^ 64" and j: "j < 2 ^ 30"
    and R: "\<And>l a. R a (user_word env l a)"
  shows "words_written R start off buf s (if fails then j else Suc j) s2"
proof -
  from assms(1) obtain new where new: "s1 = s\<lparr>k_log := new @ k_log s\<rparr>"
    "set (io_addrs new) \<subseteq> regs_of start off j"
    "\<forall>m<j. \<exists>w. reg_written new (start + off + of_nat (4 * m)) = Some w \<and> R (buf + of_nat (4 * m)) w"
    unfolding words_written_def by blast
  define b where "b = buf + of_nat (4 * j)"
  define w where "w = user_word env (new @ k_log s) b"
  let ?wr = "Io Wmb # Io (Iowrite32 w (start + off + of_nat (4 * j))) # Io (Copy_from_user b [w]) # new"
  have log: "s2 = s\<lparr>k_log := (if fails then new else ?wr) @ k_log s\<rparr>"
    using step word_count [of j] word_addr [OF off, of start] j
    by (auto simp: write_word_eq Let_def new(1) b_def w_def add.assoc simp del: of_nat_mult split: if_splits)
  have addrs: "set (io_addrs ?wr) \<subseteq> regs_of start off (Suc j)"
    using new(2) by (auto simp: regs_of_Suc simp del: of_nat_mult)
  have "R b w" using R by (simp add: w_def)
  then have "\<forall>m<Suc j. \<exists>w. reg_written ?wr (start + off + of_nat (4 * m)) = Some w \<and> R (buf + of_nat (4 * m)) w"
    using new(3) j
    by (auto simp: of_nat_inj_u64 less_Suc_eq b_def simp del: of_nat_mult)
  with log addrs new show ?thesis unfolding words_written_def
    by (intro exI [of _ "if fails then new else ?wr"]) auto
qed

lemma words_read_mono:
  "words_read R start off buf s i j t \<Longrightarrow> i \<le> i' \<Longrightarrow> words_read R start off buf s i' j t"
  unfolding words_read_def using regs_of_mono by blast

lemma read_run:
  assumes run: "run_words (read_word env start off buf) (word_offsets 0 K) s = (k, t)"
    and off: "4 dvd unat off" "unat off + 4 * K < 2 ^ 64" and K: "K \<le> 2 ^ 30"
    and R: "\<And>l a. reg_written l = reg_written (k_log s) \<Longrightarrow> R a (ioread32_ret env l a)"
  shows "words_read R start off buf s K k t"
proof -
  have "words_read R start off buf s K (0 + k) t"
  proof (rule run_words_induct [where P = "\<lambda>j. words_read R start off buf s j j"
        and Q = "words_read R start off buf s K", OF run])
    fix j s1 s2
    assume j: "j < K" and P: "words_read R start off buf s j j s1"
    then have lim: "unat off + 4 * j < 2 ^ 64" "j < 2 ^ 30" using off(2) K by simp_all
    note step = words_read_step [OF P _ off(1) lim R]
    show "words_read R start off buf s (Suc j) (Suc j) s2"
      if "read_word env start off buf (of_nat (4 * j)) s1 = (False, s2)"
      using step [OF that] by simp
    show "words_read R start off buf s K j s2"
      if "read_word env start off buf (of_nat (4 * j)) s1 = (True, s2)"
      using words_read_mono [OF step [OF that], of K] j by simp
  qed (auto simp: words_read_def intro: exI [of _ "[]"])
  then show ?thesis by simp
qed

lemma write_run:
  assumes run: "run_words (write_word env start off buf) (word_offsets 0 K) s = (k, t)"
    and off: "4 dvd unat off" "unat off + 4 * K < 2 ^ 64" and K: "K \<le> 2 ^ 30"
    and R: "\<And>l a. R a (user_word env l a)"
  shows "words_written R start off buf s k t"
proof -
  have "words_written R start off buf s (0 + k) t"
  proof (rule run_words_induct [where P = "words_written R start off buf s"
        and Q = "words_written R start off buf s", OF run])
    fix j s1 s2
    assume j: "j < K" and P: "words_written R start off buf s j s1"
    then have lim: "unat off + 4 * j < 2 ^ 64" "j < 2 ^ 30" using off(2) K by simp_all
    note step = words_written_step [OF P _ off(1) lim R]
    show "words_written R start off buf s (Suc j) s2"
      if "write_word env start off buf (of_nat (4 * j)) s1 = (False, s2)"
      using step [OF that] by simp
    show "words_written R start off buf s j s2"
      if "write_word env start off buf (of_nat (4 * j)) s1 = (True, s2)"
      using step [OF that] by simp
  qed (auto simp: words_written_def intro: exI [of _ "[]"])
  then show ?thesis by simp
qed

section \<open>The contract of a transfer handler\<close>

text \<open>
  Read and write check the request, lock the mutex of the board, run their loop, unlock, and
  advance the file position. The laws name that order; the loop obeys \<open>word_loop\<close> and its
  body changes nothing but the log.
\<close>

text \<open>The state in which the loops run: the mutex is held.\<close>

definition locked :: "ptr \<Rightarrow> 'z kst_scheme \<Rightarrow> 'z kst_scheme" where
  "locked dev s = log_add (Sync (Mutex_lock dev))
     (s\<lparr>k_dev := (k_dev s)(dev := map_option (dev_mut_update (\<lambda>_. True)) (k_dev s dev))\<rparr>)"

locale rw_handler =
  fixes handler :: "transfer_information \<Rightarrow> ptr \<Rightarrow> ptr \<Rightarrow> u64 \<Rightarrow> loff \<Rightarrow> ('z kst_scheme, ssize \<times> loff) km"
    and loop :: "ptr \<Rightarrow> u64 \<Rightarrow> ptr \<Rightarrow> u32 \<Rightarrow> u32 \<Rightarrow> 'z kst_scheme \<Rightarrow> (u32 \<times> 'z kst_scheme) option"
    and body :: "ptr \<Rightarrow> u64 \<Rightarrow> ptr \<Rightarrow> u32 \<Rightarrow> 'z kst_scheme \<Rightarrow> bool \<times> 'z kst_scheme"
    and env :: kenv
  assumes handler_eq: "handler junk fp buf count f_pos =
     kbind (kget (\<lambda>s. k_priv s fp)) (\<lambda>dev.
     kbind (get_dev dev) (\<lambda>d.
     let (e, ti) = checkAndCalculateTransferInformation d count f_pos junk
     in if e \<noteq> 0 then kret (scast e, f_pos)
        else kbind (mutex_lock_interruptible env dev) (\<lambda>i.
          if i then kret (scast (- ERESTARTSYS), f_pos)
          else kbind (kloop (\<lambda>s. map_option Inr
                 (loop (barStart ti) (offset ti) buf (nBytesToTransfer ti) 0 s))) (\<lambda>n.
               kseq (mutex_unlock dev) (kret (ucast n, f_pos + ucast n))))))"
    and word_loop: "word_loop (loop start off buf) (body start off buf)"
    and body_frame: "body start off buf n s = (f, s') \<Longrightarrow> \<exists>new. s' = s\<lparr>k_log := new @ k_log s\<rparr>"
begin

lemma run_frame:
  "run_words (body start off buf) ns s = (k, t) \<Longrightarrow> \<exists>new. t = s\<lparr>k_log := new @ k_log s\<rparr>"
proof (induction ns arbitrary: s k)
  case Nil
  then show ?case by (auto intro: exI [of _ "[]"])
next
  case (Cons n ns)
  obtain f s' where b: "body start off buf n s = (f, s')" by fastforce
  then obtain new where new: "s' = s\<lparr>k_log := new @ k_log s\<rparr>" using body_frame by blast
  show ?case
  proof (cases f)
    case True
    with Cons.prems b new show ?thesis by auto
  next
    case False
    with Cons.prems b obtain k' where "run_words (body start off buf) ns s' = (k', t)"
      by (auto split: prod.splits)
    from Cons.IH [OF this] obtain new' where "t = s'\<lparr>k_log := new' @ k_log s'\<rparr>" by blast
    with new show ?thesis by (auto intro: exI [of _ "new' @ new"])
  qed
qed

lemma handler_rejects:
  assumes "k_priv s fp = dev" "dev \<noteq> NULL" "k_dev s dev = Some d" "\<not> valid_request d count f_pos"
  shows "handler junk fp buf count f_pos s = Inr ((- 14, f_pos), s)"
  using assms check_code [of d count f_pos junk]
  by (auto simp: handler_eq km_simps split: prod.splits)

lemma handler_signal:
  assumes "k_priv s fp = dev" "dev \<noteq> NULL" "k_dev s dev = Some d" "valid_request d count f_pos"
    and "lock_interrupted env (k_log s) dev"
  shows "handler junk fp buf count f_pos s = Inr ((- 512, f_pos), s)"
  using assms check_code [of d count f_pos junk]
  by (auto simp: handler_eq km_simps split: prod.splits)

lemma handler_deadlock:
  assumes "k_priv s fp = dev" "dev \<noteq> NULL" "k_dev s dev = Some d" "valid_request d count f_pos"
    and "\<not> lock_interrupted env (k_log s) dev" "dev_mut d"
  shows "handler junk fp buf count f_pos s = Inl Deadlock"
  using assms check_code [of d count f_pos junk]
  by (auto simp: handler_eq km_simps split: prod.splits)

lemma handler_runs:
  assumes dev: "k_priv s fp = dev" "dev \<noteq> NULL" "k_dev s dev = Some d" "\<not> dev_mut d"
    and chk: "checkAndCalculateTransferInformation d count f_pos junk = (0, ti)"
    and sig: "\<not> lock_interrupted env (k_log s) dev"
    and N: "unat (nBytesToTransfer ti) + 3 < 2 ^ 32"
    and run: "run_words (body (barStart ti) (offset ti) buf)
                (word_offsets 0 (words_of (nBytesToTransfer ti))) (locked dev s) = (k, t)"
  shows "handler junk fp buf count f_pos s =
    Inr ((of_nat (4 * k), f_pos + of_nat (4 * k)), s\<lparr>k_log := Sync (Mutex_unlock dev) # k_log t\<rparr>)"
proof -
  let ?N = "nBytesToTransfer ti"
  have "k \<le> words_of ?N"
    using run run_words_le [of "body (barStart ti) (offset ti) buf" "word_offsets 0 (words_of ?N)" "locked dev s"]
    by (simp add: word_offsets_def)
  then have k: "4 * k < 2 ^ 32" using N by (simp add: words_of_def)
  have loop: "loop (barStart ti) (offset ti) buf ?N 0 (locked dev s) = Some (of_nat (4 * k), t)"
    by (rule word_loop.loop_run [OF word_loop N run])
  obtain new where t: "t = (locked dev s)\<lparr>k_log := new @ k_log (locked dev s)\<rparr>"
    using run_frame [OF run] by blast
  have "mutex_lock_interruptible env dev s = Inr (False, locked dev s)"
    using dev sig by (simp add: km_simps locked_def)
  moreover have "kloop (\<lambda>s. map_option Inr (loop (barStart ti) (offset ti) buf ?N 0 s)) (locked dev s)
      = Inr (of_nat (4 * k), t)"
    using loop by (simp add: kloop_def)
  moreover have "mutex_unlock dev t = Inr ((), s\<lparr>k_log := Sync (Mutex_unlock dev) # k_log t\<rparr>)"
    using dev t by (simp add: km_simps locked_def log_add_def fun_upd_idem)
  ultimately show ?thesis using dev chk word_count [OF k]
    by (simp add: handler_eq km_simps del: of_nat_mult)
qed

lemma handler_diverges:
  assumes dev: "k_priv s fp = dev" "dev \<noteq> NULL" "k_dev s dev = Some d" "\<not> dev_mut d"
    and chk: "checkAndCalculateTransferInformation d count f_pos junk = (0, ti)"
    and sig: "\<not> lock_interrupted env (k_log s) dev"
    and N: "2 ^ 32 \<le> unat (nBytesToTransfer ti) + 3"
    and body: "\<And>n s. \<not> fst (body (barStart ti) (offset ti) buf n s)"
  shows "handler junk fp buf count f_pos s = Inl Diverges"
proof -
  have "loop (barStart ti) (offset ti) buf (nBytesToTransfer ti) 0 (locked dev s) = None"
    using word_loop.loop_diverges [OF word_loop N, of "\<lambda>_. True"] body by simp
  moreover have "mutex_lock_interruptible env dev s = Inr (False, locked dev s)"
    using dev sig by (simp add: km_simps locked_def)
  ultimately show ?thesis using dev chk by (simp add: handler_eq km_simps)
qed

end

lemma read_word_frame:
  "read_word env start off buf n s = (f, s') \<Longrightarrow> \<exists>new. s' = s\<lparr>k_log := new @ k_log s\<rparr>"
proof -
  assume "read_word env start off buf n s = (f, s')"
  then show ?thesis
    by (auto simp: read_word_eq Let_def split: if_splits
        intro: exI [of _ "[_]"] exI [of _ "[_, _, _]"])
qed

lemma write_word_frame:
  "write_word env start off buf n s = (f, s') \<Longrightarrow> \<exists>new. s' = s\<lparr>k_log := new @ k_log s\<rparr>"
proof -
  assume "write_word env start off buf n s = (f, s')"
  then show ?thesis
    by (auto simp: write_word_eq Let_def split: if_splits
        intro: exI [of _ "[]"] exI [of _ "[_, _, _]"])
qed

interpretation rd: rw_handler "pcieuni_read_no_struct_exp env" "read_loop env" "read_word env" env
  for env
  by unfold_locales (simp add: pcieuni_read_no_struct_exp_def, rule read_word_frame)

interpretation wr: rw_handler "pcieuni_write_no_struct_exp env" "write_loop env" "write_word env" env
  for env
  by unfold_locales (simp add: pcieuni_write_no_struct_exp_def, rule write_word_frame)

section \<open>What a transfer does\<close>

text \<open>The bound \<open>vfs_read\<close> and \<open>vfs_write\<close> put on the count before they call the driver.\<close>

abbreviation (input) MAX_RW_COUNT :: nat where "MAX_RW_COUNT \<equiv> 0x7ffff000"

text \<open>The bytes of a request that lie in the BAR.\<close>

definition bytes_in_bar :: "pcieuni_bar \<Rightarrow> u64 \<Rightarrow> loff \<Rightarrow> nat" where
  "bytes_in_bar b count v = min (unat count) (bar_size b + 1 - pos_offset v)"

lemma pos_offset_less: "pos_offset v < 2 ^ 60"
  by (simp add: pos_offset_def)

text \<open>
  A BAR has a length divisible by four, so the computed size ends in binary 11; rounding the
  byte count up to words then reaches exactly the last byte of the BAR.
\<close>

lemma round_up_words:
  fixes c off size :: nat
  assumes "4 dvd c" "4 dvd off" "size mod 4 = 3" "off \<le> size"
  shows "4 * ((min c (size - off) + 3) div 4) = min c (size + 1 - off)"
proof -
  obtain c' o' where "c = 4 * c'" "off = 4 * o'" using assms(1,2) by (auto elim!: dvdE)
  moreover obtain q where "size = 4 * q + 3"
    using assms(3) by (metis div_mult_mod_eq mult.commute)
  moreover from calculation assms(4) obtain r where "q = o' + r"
    using le_Suc_ex [of o' q] by auto
  ultimately show ?thesis by (auto simp: min_def)
qed

lemma transfer_facts:
  assumes valid: "valid_request d count v" and b: "dev_bar d (pos_bar v) = Some b"
    and al: "bar_size b mod 4 = 3" and lim: "unat count \<le> MAX_RW_COUNT"
  obtains ti where "checkAndCalculateTransferInformation d count v junk = (0, ti)"
    "barStart ti = memmory_base b" "4 dvd unat (offset ti)" "offset ti = of_nat (pos_offset v)"
    "unat (nBytesToTransfer ti) + 3 < 2 ^ 32"
    "4 * words_of (nBytesToTransfer ti) = bytes_in_bar b count v"
    "unat (offset ti) + 4 * words_of (nBytesToTransfer ti) < 2 ^ 64"
    "words_of (nBytesToTransfer ti) \<le> 2 ^ 30"
proof -
  obtain ti where ti: "checkAndCalculateTransferInformation d count v junk = (0, ti)"
    using check_code [of d count v junk] valid by (metis prod.collapse)
  have "pos_offset v + unat count < 2 ^ 64"
    using pos_offset_less [of v] lim by simp
  from check_info [OF ti this] b obtain
    start: "barStart ti = memmory_base b" and off: "unat (offset ti) = pos_offset v"
    and dvd: "4 dvd pos_offset v" "4 dvd unat count" and le: "pos_offset v \<le> bar_size b"
    and N: "unat (nBytesToTransfer ti) = min (unat count) (bar_size b - pos_offset v)"
    by auto
  have "4 * words_of (nBytesToTransfer ti) = bytes_in_bar b count v"
    using round_up_words [OF dvd(2,1) al le] by (simp add: words_of_def bytes_in_bar_def N)
  moreover have "bytes_in_bar b count v \<le> MAX_RW_COUNT"
    using lim by (simp add: bytes_in_bar_def)
  moreover have "offset ti = of_nat (pos_offset v)" by (simp flip: off)
  ultimately show ?thesis
    using that [OF ti start] off dvd N lim pos_offset_less [of v] by simp
qed

lemma read_result:
  assumes dev: "k_priv s fp = dev" "dev \<noteq> NULL" "k_dev s dev = Some d" "\<not> dev_mut d"
    and valid: "valid_request d count f_pos" and b: "dev_bar d (pos_bar f_pos) = Some b"
    and al: "bar_size b mod 4 = 3" and lim: "unat count \<le> MAX_RW_COUNT"
    and sig: "\<not> lock_interrupted env (k_log s) dev"
    and R: "\<And>l a. reg_written l = reg_written (k_log s) \<Longrightarrow> R a (ioread32_ret env l a)"
  obtains k new where
    "pcieuni_read_no_struct_exp env junk fp buf count f_pos s =
       Inr ((of_nat (4 * k), f_pos + of_nat (4 * k)), s\<lparr>k_log := new @ k_log s\<rparr>)"
    "4 * k \<le> bytes_in_bar b count f_pos"
    "(\<And>l a. \<not> copy_to_user_fails env l a) \<Longrightarrow> 4 * k = bytes_in_bar b count f_pos"
    "set (io_addrs new) \<subseteq>
       regs_of (memmory_base b) (of_nat (pos_offset f_pos)) (bytes_in_bar b count f_pos div 4)"
    "\<forall>m<k. \<exists>w. copied_out new (buf + of_nat (4 * m)) = Some w \<and>
       R (memmory_base b + of_nat (pos_offset f_pos) + of_nat (4 * m)) w"
proof -
  from transfer_facts [OF valid b al lim] obtain ti where
    chk: "checkAndCalculateTransferInformation d count f_pos junk = (0, ti)"
    and ti: "barStart ti = memmory_base b" "4 dvd unat (offset ti)" "offset ti = of_nat (pos_offset f_pos)"
      "unat (nBytesToTransfer ti) + 3 < 2 ^ 32"
      "4 * words_of (nBytesToTransfer ti) = bytes_in_bar b count f_pos"
      "unat (offset ti) + 4 * words_of (nBytesToTransfer ti) < 2 ^ 64"
      "words_of (nBytesToTransfer ti) \<le> 2 ^ 30"
    by metis
  let ?K = "words_of (nBytesToTransfer ti)" and ?body = "read_word env (barStart ti) (offset ti) buf"
  obtain k t where run: "run_words ?body (word_offsets 0 ?K) (locked dev s) = (k, t)" by fastforce
  have "words_read R (barStart ti) (offset ti) buf (locked dev s) ?K k t"
    by (rule read_run [OF run ti(2,6,7)]) (simp add: R locked_def fun_eq_iff)
  then obtain new where new: "k_log t = new @ k_log (locked dev s)"
    "set (io_addrs new) \<subseteq> regs_of (barStart ti) (offset ti) ?K"
    "\<forall>m<k. \<exists>w. copied_out new (buf + of_nat (4 * m)) = Some w \<and> R (barStart ti + offset ti + of_nat (4 * m)) w"
    unfolding words_read_def by auto
  have k: "k \<le> ?K" using run_words_le [of ?body "word_offsets 0 ?K" "locked dev s"] run
    by (simp add: word_offsets_def)
  have all: "k = ?K" if "\<And>l a. \<not> copy_to_user_fails env l a"
    using run_words_all [of ?body "word_offsets 0 ?K" "locked dev s"] run that
    by (simp add: word_offsets_def read_word_eq Let_def)
  let ?new = "Sync (Mutex_unlock dev) # new @ [Sync (Mutex_lock dev)]"
  show ?thesis
  proof (rule that [of k ?new])
    show "pcieuni_read_no_struct_exp env junk fp buf count f_pos s =
       Inr ((of_nat (4 * k), f_pos + of_nat (4 * k)), s\<lparr>k_log := ?new @ k_log s\<rparr>)"
      using rd.handler_runs [OF dev chk sig ti(4) run] by (simp add: new(1) locked_def)
    show "\<forall>m<k. \<exists>w. copied_out ?new (buf + of_nat (4 * m)) = Some w \<and>
       R (memmory_base b + of_nat (pos_offset f_pos) + of_nat (4 * m)) w"
      using new(3) by (fastforce simp: ti(1,3) copied_out_append simp del: of_nat_mult)
    show "set (io_addrs ?new) \<subseteq>
       regs_of (memmory_base b) (of_nat (pos_offset f_pos)) (bytes_in_bar b count f_pos div 4)"
      using new(2) by (simp add: ti(1,3) ti(5) [symmetric])
  qed (use k all ti(5) in auto)
qed

lemma write_result:
  assumes dev: "k_priv s fp = dev" "dev \<noteq> NULL" "k_dev s dev = Some d" "\<not> dev_mut d"
    and valid: "valid_request d count f_pos" and b: "dev_bar d (pos_bar f_pos) = Some b"
    and al: "bar_size b mod 4 = 3" and lim: "unat count \<le> MAX_RW_COUNT"
    and sig: "\<not> lock_interrupted env (k_log s) dev"
    and R: "\<And>l a. R a (user_word env l a)"
  obtains k new where
    "pcieuni_write_no_struct_exp env junk fp buf count f_pos s =
       Inr ((of_nat (4 * k), f_pos + of_nat (4 * k)), s\<lparr>k_log := new @ k_log s\<rparr>)"
    "4 * k \<le> bytes_in_bar b count f_pos"
    "(\<And>l a. \<not> copy_from_user_fails env l a) \<Longrightarrow> 4 * k = bytes_in_bar b count f_pos"
    "set (io_addrs new) \<subseteq> regs_of (memmory_base b) (of_nat (pos_offset f_pos)) k"
    "\<forall>m<k. \<exists>w. reg_written new (memmory_base b + of_nat (pos_offset f_pos) + of_nat (4 * m)) = Some w \<and>
       R (buf + of_nat (4 * m)) w"
proof -
  from transfer_facts [OF valid b al lim] obtain ti where
    chk: "checkAndCalculateTransferInformation d count f_pos junk = (0, ti)"
    and ti: "barStart ti = memmory_base b" "4 dvd unat (offset ti)" "offset ti = of_nat (pos_offset f_pos)"
      "unat (nBytesToTransfer ti) + 3 < 2 ^ 32"
      "4 * words_of (nBytesToTransfer ti) = bytes_in_bar b count f_pos"
      "unat (offset ti) + 4 * words_of (nBytesToTransfer ti) < 2 ^ 64"
      "words_of (nBytesToTransfer ti) \<le> 2 ^ 30"
    by metis
  let ?K = "words_of (nBytesToTransfer ti)" and ?body = "write_word env (barStart ti) (offset ti) buf"
  obtain k t where run: "run_words ?body (word_offsets 0 ?K) (locked dev s) = (k, t)" by fastforce
  have "words_written R (barStart ti) (offset ti) buf (locked dev s) k t"
    by (rule write_run [OF run ti(2,6,7)]) (rule R)
  then obtain new where new: "k_log t = new @ k_log (locked dev s)"
    "set (io_addrs new) \<subseteq> regs_of (barStart ti) (offset ti) k"
    "\<forall>m<k. \<exists>w. reg_written new (barStart ti + offset ti + of_nat (4 * m)) = Some w \<and> R (buf + of_nat (4 * m)) w"
    unfolding words_written_def by auto
  have k: "k \<le> ?K" using run_words_le [of ?body "word_offsets 0 ?K" "locked dev s"] run
    by (simp add: word_offsets_def)
  have all: "k = ?K" if "\<And>l a. \<not> copy_from_user_fails env l a"
    using run_words_all [of ?body "word_offsets 0 ?K" "locked dev s"] run that
    by (simp add: word_offsets_def write_word_eq Let_def)
  let ?new = "Sync (Mutex_unlock dev) # new @ [Sync (Mutex_lock dev)]"
  show ?thesis
  proof (rule that [of k ?new])
    show "pcieuni_write_no_struct_exp env junk fp buf count f_pos s =
       Inr ((of_nat (4 * k), f_pos + of_nat (4 * k)), s\<lparr>k_log := ?new @ k_log s\<rparr>)"
      using wr.handler_runs [OF dev chk sig ti(4) run] by (simp add: new(1) locked_def)
    show "\<forall>m<k. \<exists>w. reg_written ?new (memmory_base b + of_nat (pos_offset f_pos) + of_nat (4 * m)) = Some w \<and>
       R (buf + of_nat (4 * m)) w"
      using new(3) by (fastforce simp: ti(1,3) reg_written_append simp del: of_nat_mult)
    show "set (io_addrs ?new) \<subseteq> regs_of (memmory_base b) (of_nat (pos_offset f_pos)) k"
      using new(2) by (simp add: ti(1,3))
  qed (use k all ti(5) in auto)
qed

text \<open>The registers of a transfer lie inside the BAR and in the range of the request.\<close>

lemma regs_in_words:
  assumes "a \<in> regs_of start (of_nat off) k" "4 dvd off" "4 * k \<le> min c (sz + 1 - off)"
  shows "\<exists>i. a = start + of_nat i \<and> 4 dvd i \<and> i + 3 \<le> sz \<and> off \<le> i \<and> i + 4 \<le> off + 4 * k"
proof -
  from assms(1) obtain m where m: "m < k" "a = start + of_nat off + of_nat (4 * m)"
    by (auto simp: regs_of_def)
  then show ?thesis using assms(2,3) by (intro exI [of _ "off + 4 * m"]) auto
qed

lemma regs_in_request:
  assumes "a \<in> regs_of start (of_nat off) (min c (sz + 1 - off) div 4)" "4 dvd off"
  shows "\<exists>i. a = start + of_nat i \<and> 4 dvd i \<and> i + 3 \<le> sz \<and> off \<le> i \<and> i + 4 \<le> off + c"
proof -
  have "4 * (min c (sz + 1 - off) div 4) \<le> min c (sz + 1 - off)" by (rule times_div_less_eq_dividend)
  from regs_in_words [OF assms this] show ?thesis by fastforce
qed

lemma valid_request_offset: "valid_request d count v \<Longrightarrow> 4 dvd pos_offset v"
  by (auto simp: valid_request_def pos_offset_def dvd_mod)

section \<open>A concrete board\<close>

text \<open>One board at address 0x2000 with a 16-byte BAR 0 mapped at 0xC000, open as file 7.\<close>

definition ex_dev :: pcieuni_dev where
  "ex_dev = zero_dev\<lparr>dev_sts := 1, binded := 1,
     bar0 := \<lparr>mem_base = 0x1000, mem_base_end = 0x100F, mem_base_flag = 0, rw_off = 15,
              memmory_base = 0xC000\<rparr>\<rparr>"

definition ex_kst :: kst where
  "ex_kst = empty_kst\<lparr>k_dev := [0x2000 \<mapsto> ex_dev], k_priv := (\<lambda>_. 0x2000)\<rparr>"

definition ex_ti :: transfer_information where
  "ex_ti = \<lparr>bar = 0, offset = 0, barSizeInBytes = 0, barStart = 0, barEnd = 0, nBytesToTransfer = 0\<rparr>"

lemma ex_facts:
  "k_priv ex_kst 7 = 0x2000" "k_dev ex_kst 0x2000 = Some ex_dev" "\<not> dev_mut ex_dev"
  "dev_bar ex_dev 0 = Some (bar0 ex_dev)" "bar_size (bar0 ex_dev) = 15"
  "memmory_base (bar0 ex_dev) = 0xC000" "dev_sts ex_dev = 1" "k_log ex_kst = []"
  by (simp_all add: ex_kst_def ex_dev_def empty_kst_def zero_dev_def dev_bar_def bar_size_def)

lemma ex_valid:
  "valid_request ex_dev 16 4" "pos_bar 4 = 0" "pos_offset 4 = 4" "bytes_in_bar (bar0 ex_dev) 16 4 = 12"
  by (simp_all add: valid_request_def pos_bar_def pos_offset_def ex_facts bytes_in_bar_def)

lemma ex_bars: "\<forall>k b. dev_bar ex_dev k = Some b \<and> memmory_base b \<noteq> NULL \<longrightarrow> bar_size b mod 4 = 3"
  by (auto simp: dev_bar_def ex_dev_def zero_dev_def zero_bar_def bar_size_def split: if_splits)

section \<open>Properties of read and write\<close>

lemma read_delivers:
  assumes "k_priv s fp = dev" and "dev \<noteq> NULL" and "k_dev s dev = Some d" and "\<not> dev_mut d"
    and "valid_request d count f_pos" and "dev_bar d (pos_bar f_pos) = Some b"
    and "bar_size b mod 4 = 3" and "unat count \<le> MAX_RW_COUNT"
    and "\<not> lock_interrupted env (k_log s) dev"
    and "\<And>l a. \<not> copy_to_user_fails env l a"
    and "\<And>l a. ioread32_ret env l a = regs a"
  shows "\<exists>new. pcieuni_read_no_struct_exp env junk fp buf count f_pos s =
      Inr ((of_nat (bytes_in_bar b count f_pos), f_pos + of_nat (bytes_in_bar b count f_pos)),
           s\<lparr>k_log := new @ k_log s\<rparr>) \<and>
    (\<forall>i < bytes_in_bar b count f_pos div 4.
       copied_out new (buf + of_nat (4 * i)) =
         Some (regs (memmory_base b + of_nat (pos_offset f_pos) + of_nat (4 * i))))"
proof (rule read_result [OF assms(1-9), where R = "\<lambda>a w. w = regs a" and junk = junk and buf = buf])
  show "ioread32_ret env l a = regs a" for l a by (rule assms)
  fix k new
  assume r: "pcieuni_read_no_struct_exp env junk fp buf count f_pos s =
       Inr ((of_nat (4 * k), f_pos + of_nat (4 * k)), s\<lparr>k_log := new @ k_log s\<rparr>)"
    and k: "(\<And>l a. \<not> copy_to_user_fails env l a) \<Longrightarrow> 4 * k = bytes_in_bar b count f_pos"
    and w: "\<forall>m<k. \<exists>w. copied_out new (buf + of_nat (4 * m)) = Some w \<and>
       w = regs (memmory_base b + of_nat (pos_offset f_pos) + of_nat (4 * m))"
  from k [OF assms(10)] have n: "bytes_in_bar b count f_pos = 4 * k" by simp
  show ?thesis unfolding n using r w by (intro exI [of _ new]) auto
qed

text \<open>
  C1: a read that is valid, not interrupted and meets no faulting user page returns the number
  of requested bytes that lie in the BAR, advances the file position by it, leaves the board
  unlocked and otherwise unchanged, and the user's buffer holds the contents of the registers
  from the offset on, word by word.
\<close>

theorem read_delivers_registers:
  assumes "k_priv s fp = dev" and "dev \<noteq> NULL" and "k_dev s dev = Some d" and "\<not> dev_mut d"
    and "valid_request d count f_pos" and "dev_bar d (pos_bar f_pos) = Some b"
    and "bar_size b mod 4 = 3" and "unat count \<le> MAX_RW_COUNT"
    and "\<not> lock_interrupted env (k_log s) dev"
    and "\<And>l a. \<not> copy_to_user_fails env l a"
    and "\<And>l a. ioread32_ret env l a = regs a"
  shows "\<exists>new. pcieuni_read_no_struct_exp env junk fp buf count f_pos s =
      Inr ((of_nat (bytes_in_bar b count f_pos), f_pos + of_nat (bytes_in_bar b count f_pos)),
           s\<lparr>k_log := new @ k_log s\<rparr>) \<and>
    (\<forall>i < bytes_in_bar b count f_pos div 4.
       copied_out new (buf + of_nat (4 * i)) =
         Some (regs (memmory_base b + of_nat (pos_offset f_pos) + of_nat (4 * i))))"
  using assms by (rule read_delivers)

theorem read_delivers_registers_witness:
  "\<exists>new. pcieuni_read_no_struct_exp (quiet_kernel\<lparr>ioread32_ret := (\<lambda>_ a. ucast a)\<rparr>) ex_ti 7 0x5000 16 4 ex_kst =
      Inr ((12, 16), ex_kst\<lparr>k_log := new\<rparr>) \<and> copied_out new 0x5004 = Some 0xC008"
  using read_delivers_registers [where s = ex_kst and fp = 7 and dev = "0x2000" and d = ex_dev
      and count = 16 and f_pos = 4 and b = "bar0 ex_dev" and regs = ucast and junk = ex_ti
      and buf = "0x5000" and env = "quiet_kernel\<lparr>ioread32_ret := (\<lambda>_ a. ucast a)\<rparr>"]
  by (auto simp: ex_facts ex_valid quiet_kernel_def dest!: spec [of _ 1])

text \<open>
  C2: a write that is valid, not interrupted and meets no faulting user page returns the
  number of bytes that lie in the BAR, advances the file position, leaves the board unlocked,
  and the registers from the offset on have been written with the words of the user's buffer.
\<close>

theorem write_stores_words:
  assumes "k_priv s fp = dev" and "dev \<noteq> NULL" and "k_dev s dev = Some d" and "\<not> dev_mut d"
    and "valid_request d count f_pos" and "dev_bar d (pos_bar f_pos) = Some b"
    and "bar_size b mod 4 = 3" and "unat count \<le> MAX_RW_COUNT"
    and "\<not> lock_interrupted env (k_log s) dev"
    and "\<And>l a. \<not> copy_from_user_fails env l a"
    and "\<And>l a. user_word env l a = user a"
  shows "\<exists>new. pcieuni_write_no_struct_exp env junk fp buf count f_pos s =
      Inr ((of_nat (bytes_in_bar b count f_pos), f_pos + of_nat (bytes_in_bar b count f_pos)),
           s\<lparr>k_log := new @ k_log s\<rparr>) \<and>
    (\<forall>i < bytes_in_bar b count f_pos div 4.
       reg_written new (memmory_base b + of_nat (pos_offset f_pos) + of_nat (4 * i)) =
         Some (user (buf + of_nat (4 * i))))"
proof (rule write_result [OF assms(1-9), where R = "\<lambda>a w. w = user a" and junk = junk and buf = buf])
  show "user_word env l a = user a" for l a by (rule assms)
  fix k new
  assume r: "pcieuni_write_no_struct_exp env junk fp buf count f_pos s =
       Inr ((of_nat (4 * k), f_pos + of_nat (4 * k)), s\<lparr>k_log := new @ k_log s\<rparr>)"
    and k: "(\<And>l a. \<not> copy_from_user_fails env l a) \<Longrightarrow> 4 * k = bytes_in_bar b count f_pos"
    and w: "\<forall>m<k. \<exists>w. reg_written new (memmory_base b + of_nat (pos_offset f_pos) + of_nat (4 * m)) = Some w \<and>
       w = user (buf + of_nat (4 * m))"
  from k [OF assms(10)] have n: "bytes_in_bar b count f_pos = 4 * k" by simp
  show ?thesis unfolding n using r w by (intro exI [of _ new]) auto
qed

theorem write_stores_words_witness:
  "\<exists>new. pcieuni_write_no_struct_exp (quiet_kernel\<lparr>user_word := (\<lambda>_ a. ucast a)\<rparr>) ex_ti 7 0x5000 16 4 ex_kst =
      Inr ((12, 16), ex_kst\<lparr>k_log := new\<rparr>) \<and> reg_written new 0xC00C = Some 0x5008"
  using write_stores_words [where s = ex_kst and fp = 7 and dev = "0x2000" and d = ex_dev
      and count = 16 and f_pos = 4 and b = "bar0 ex_dev" and user = ucast and junk = ex_ti
      and buf = "0x5000" and env = "quiet_kernel\<lparr>user_word := (\<lambda>_ a. ucast a)\<rparr>"]
  by (auto simp: ex_facts ex_valid quiet_kernel_def dest!: spec [of _ 2])

text \<open>
  What a request does that is not carried out: it is refused, or a signal ends the wait for the
  mutex, or it waits for a mutex that is not given back.
\<close>

lemma read_not_carried_out:
  assumes "k_priv s fp = dev" "dev \<noteq> NULL" "k_dev s dev = Some d"
    "\<not> (valid_request d count f_pos \<and> \<not> lock_interrupted env (k_log s) dev)"
  shows "\<exists>r. pcieuni_read_no_struct_exp env junk fp buf count f_pos s = Inr (r, s)"
  using assms by (cases "valid_request d count f_pos") (simp_all add: rd.handler_rejects rd.handler_signal)

lemma write_not_carried_out:
  assumes "k_priv s fp = dev" "dev \<noteq> NULL" "k_dev s dev = Some d"
    "\<not> (valid_request d count f_pos \<and> \<not> lock_interrupted env (k_log s) dev)"
  shows "\<exists>r. pcieuni_write_no_struct_exp env junk fp buf count f_pos s = Inr (r, s)"
  using assms by (cases "valid_request d count f_pos") (simp_all add: wr.handler_rejects wr.handler_signal)

text \<open>The registers a request accesses that is carried out.\<close>

lemma read_regs:
  assumes "k_priv s fp = dev" "dev \<noteq> NULL" "k_dev s dev = Some d" "\<not> dev_mut d" "valid_request d count f_pos"
    "dev_bar d (pos_bar f_pos) = Some b" "bar_size b mod 4 = 3" "unat count \<le> MAX_RW_COUNT"
    "\<not> lock_interrupted env (k_log s) dev"
  shows "\<exists>k new. pcieuni_read_no_struct_exp env junk fp buf count f_pos s =
       Inr ((of_nat (4 * k), f_pos + of_nat (4 * k)), s\<lparr>k_log := new @ k_log s\<rparr>) \<and>
    set (io_addrs new) \<subseteq> regs_of (memmory_base b) (of_nat (pos_offset f_pos)) (bytes_in_bar b count f_pos div 4)"
  by (rule read_result [OF assms, where R = "\<lambda>_ _. True" and junk = junk and buf = buf]) blast+

lemma write_regs:
  assumes "k_priv s fp = dev" "dev \<noteq> NULL" "k_dev s dev = Some d" "\<not> dev_mut d" "valid_request d count f_pos"
    "dev_bar d (pos_bar f_pos) = Some b" "bar_size b mod 4 = 3" "unat count \<le> MAX_RW_COUNT"
    "\<not> lock_interrupted env (k_log s) dev"
  shows "\<exists>k new. pcieuni_write_no_struct_exp env junk fp buf count f_pos s =
       Inr ((of_nat (4 * k), f_pos + of_nat (4 * k)), s\<lparr>k_log := new @ k_log s\<rparr>) \<and>
    4 * k \<le> bytes_in_bar b count f_pos \<and> set (io_addrs new) \<subseteq> regs_of (memmory_base b) (of_nat (pos_offset f_pos)) k"
  by (rule write_result [OF assms, where R = "\<lambda>_ _. True" and junk = junk and buf = buf]) blast+

text \<open>
  C6: a read of at most \<open>MAX_RW_COUNT\<close> bytes on a board whose BARs have lengths divisible by four,
  valid or not and at any position: it waits for ever when the request is valid, no signal comes
  and the mutex is never given back; otherwise it returns. Whatever the device delivers and
  whether or not user pages fault, each register it reads is a word of the selected BAR that the
  request asks for: its four bytes lie between the first and the last address of the BAR, both
  included, and between the offset of the request and the end of the requested range. A request
  that is refused or interrupted reads no register. The last word of the BAR ends one byte beyond
  the length the driver asked for when it mapped the BAR.
\<close>

theorem read_stays_in_bar:
  assumes "k_priv s fp = dev" and "dev \<noteq> NULL" and "k_dev s dev = Some d"
    and "\<forall>k b. dev_bar d k = Some b \<and> memmory_base b \<noteq> NULL \<longrightarrow> bar_size b mod 4 = 3" and "unat count \<le> MAX_RW_COUNT"
  shows "if valid_request d count f_pos \<and> \<not> lock_interrupted env (k_log s) dev \<and> dev_mut d
    then pcieuni_read_no_struct_exp env junk fp buf count f_pos s = Inl Deadlock
    else \<exists>r new. pcieuni_read_no_struct_exp env junk fp buf count f_pos s = Inr (r, s\<lparr>k_log := new @ k_log s\<rparr>) \<and>
      (valid_request d count f_pos \<and> \<not> lock_interrupted env (k_log s) dev \<or> new = []) \<and>
      (\<forall>a \<in> set (io_addrs new). \<exists>b i. dev_bar d (pos_bar f_pos) = Some b \<and> a = memmory_base b + of_nat i \<and> 4 dvd i \<and>
         i + 3 \<le> bar_size b \<and> pos_offset f_pos \<le> i \<and> i + 4 \<le> pos_offset f_pos + unat count)"
proof (cases "valid_request d count f_pos \<and> \<not> lock_interrupted env (k_log s) dev")
  case False
  from read_not_carried_out [OF assms(1-3) this] show ?thesis
    using False by (auto intro!: exI [of _ "[]"])
next
  case True
  then obtain b where b: "dev_bar d (pos_bar f_pos) = Some b" "memmory_base b \<noteq> NULL"
    by (auto simp: valid_request_def split: option.splits)
  show ?thesis
  proof (cases "dev_mut d")
    case mut: True
    with True assms(1-3) show ?thesis by (simp add: rd.handler_deadlock)
  next
    case free: False
    from assms(4) b have al: "bar_size b mod 4 = 3" by blast
    from read_regs [OF assms(1-3) free conjunct1 [OF True] b(1) al assms(5) conjunct2 [OF True], of junk buf]
    obtain k new where r: "pcieuni_read_no_struct_exp env junk fp buf count f_pos s =
         Inr ((of_nat (4 * k), f_pos + of_nat (4 * k)), s\<lparr>k_log := new @ k_log s\<rparr>)"
      and regs: "set (io_addrs new) \<subseteq>
         regs_of (memmory_base b) (of_nat (pos_offset f_pos)) (bytes_in_bar b count f_pos div 4)" by blast
    have "\<exists>i. a = memmory_base b + of_nat i \<and> 4 dvd i \<and> i + 3 \<le> bar_size b \<and> pos_offset f_pos \<le> i \<and>
        i + 4 \<le> pos_offset f_pos + unat count" if "a \<in> set (io_addrs new)" for a
      using that regs [unfolded bytes_in_bar_def] by (intro regs_in_request [OF _ valid_request_offset [OF conjunct1 [OF True]]]) auto
    with b(1) have "\<forall>a \<in> set (io_addrs new). \<exists>b i. dev_bar d (pos_bar f_pos) = Some b \<and> a = memmory_base b + of_nat i \<and>
        4 dvd i \<and> i + 3 \<le> bar_size b \<and> pos_offset f_pos \<le> i \<and> i + 4 \<le> pos_offset f_pos + unat count" by blast
    with r True have "\<exists>r new. pcieuni_read_no_struct_exp env junk fp buf count f_pos s = Inr (r, s\<lparr>k_log := new @ k_log s\<rparr>) \<and>
      (valid_request d count f_pos \<and> \<not> lock_interrupted env (k_log s) dev \<or> new = []) \<and>
      (\<forall>a \<in> set (io_addrs new). \<exists>b i. dev_bar d (pos_bar f_pos) = Some b \<and> a = memmory_base b + of_nat i \<and> 4 dvd i \<and>
         i + 3 \<le> bar_size b \<and> pos_offset f_pos \<le> i \<and> i + 4 \<le> pos_offset f_pos + unat count)" by blast
    with free show ?thesis by (simp only: simp_thms if_False)
  qed
qed

theorem read_stays_in_bar_witness:
  "\<exists>r new. pcieuni_read_no_struct_exp (quiet_kernel\<lparr>copy_to_user_fails := (\<lambda>_ a. a = 0x5004)\<rparr>)
       ex_ti 7 0x5000 16 4 ex_kst = Inr (r, ex_kst\<lparr>k_log := new\<rparr>) \<and>
    (\<forall>a \<in> set (io_addrs new). \<exists>i. 4 dvd i \<and> i + 3 \<le> 15 \<and> 4 \<le> i \<and> a = 0xC000 + of_nat i)"
proof -
  let ?env = "quiet_kernel\<lparr>copy_to_user_fails := (\<lambda>_ a. a = 0x5004)\<rparr>"
  have "(0x2000 :: ptr) \<noteq> NULL" "unat (16 :: u64) \<le> MAX_RW_COUNT" by simp_all
  with read_stays_in_bar [OF ex_facts(1) _ ex_facts(2) ex_bars, of 16 4 ?env ex_ti "0x5000"] ex_facts(3) obtain r new where
    run: "pcieuni_read_no_struct_exp ?env ex_ti 7 0x5000 16 4 ex_kst = Inr (r, ex_kst\<lparr>k_log := new @ k_log ex_kst\<rparr>)"
    and regs: "\<forall>a \<in> set (io_addrs new). \<exists>b i. dev_bar ex_dev (pos_bar 4) = Some b \<and> a = memmory_base b + of_nat i \<and>
      4 dvd i \<and> i + 3 \<le> bar_size b \<and> pos_offset 4 \<le> i \<and> i + 4 \<le> pos_offset 4 + unat (16 :: u64)"
    by (simp only: simp_thms if_False) blast
  have "\<exists>i. 4 dvd i \<and> i + 3 \<le> 15 \<and> 4 \<le> i \<and> a = 0xC000 + of_nat i" if "a \<in> set (io_addrs new)" for a
    using bspec [OF regs that] by (auto simp: ex_facts ex_valid)
  with run show ?thesis by (auto simp: ex_facts(8))
qed

text \<open>
  C7: a write of at most \<open>MAX_RW_COUNT\<close> bytes on a board whose BARs have lengths divisible by four,
  valid or not and at any position: it waits for ever when the request is valid, no signal comes
  and the mutex is never given back; otherwise it returns. Whatever the user pages do, each
  register it writes is a word of the selected BAR that the request asks for, with its four bytes
  between the first and the last address of the BAR, both included; and it writes no word beyond
  the number of bytes it reports. A request that is refused or interrupted writes no register.
\<close>

theorem write_stays_in_bar:
  assumes "k_priv s fp = dev" and "dev \<noteq> NULL" and "k_dev s dev = Some d"
    and "\<forall>k b. dev_bar d k = Some b \<and> memmory_base b \<noteq> NULL \<longrightarrow> bar_size b mod 4 = 3" and "unat count \<le> MAX_RW_COUNT"
  shows "if valid_request d count f_pos \<and> \<not> lock_interrupted env (k_log s) dev \<and> dev_mut d
    then pcieuni_write_no_struct_exp env junk fp buf count f_pos s = Inl Deadlock
    else \<exists>r new. pcieuni_write_no_struct_exp env junk fp buf count f_pos s = Inr (r, s\<lparr>k_log := new @ k_log s\<rparr>) \<and>
      (if valid_request d count f_pos \<and> \<not> lock_interrupted env (k_log s) dev
       then \<exists>n b. r = (of_nat n, f_pos + of_nat n) \<and> dev_bar d (pos_bar f_pos) = Some b \<and> n \<le> unat count \<and>
         (\<forall>a \<in> set (io_addrs new). \<exists>i. a = memmory_base b + of_nat i \<and> 4 dvd i \<and>
            i + 3 \<le> bar_size b \<and> pos_offset f_pos \<le> i \<and> i + 4 \<le> pos_offset f_pos + n)
       else new = [])"
proof (cases "valid_request d count f_pos \<and> \<not> lock_interrupted env (k_log s) dev")
  case False
  from write_not_carried_out [OF assms(1-3) this] show ?thesis
    using False by (auto intro!: exI [of _ "[]"])
next
  case True
  then obtain b where b: "dev_bar d (pos_bar f_pos) = Some b" "memmory_base b \<noteq> NULL"
    by (auto simp: valid_request_def split: option.splits)
  show ?thesis
  proof (cases "dev_mut d")
    case mut: True
    with True assms(1-3) show ?thesis by (simp add: wr.handler_deadlock)
  next
    case free: False
    from assms(4) b have al: "bar_size b mod 4 = 3" by blast
    from write_regs [OF assms(1-3) free conjunct1 [OF True] b(1) al assms(5) conjunct2 [OF True], of junk buf]
    obtain k new where r: "pcieuni_write_no_struct_exp env junk fp buf count f_pos s =
         Inr ((of_nat (4 * k), f_pos + of_nat (4 * k)), s\<lparr>k_log := new @ k_log s\<rparr>)"
      and k: "4 * k \<le> bytes_in_bar b count f_pos"
      and regs: "set (io_addrs new) \<subseteq> regs_of (memmory_base b) (of_nat (pos_offset f_pos)) k" by blast
    have "\<exists>i. a = memmory_base b + of_nat i \<and> 4 dvd i \<and> i + 3 \<le> bar_size b \<and> pos_offset f_pos \<le> i \<and>
        i + 4 \<le> pos_offset f_pos + 4 * k" if "a \<in> set (io_addrs new)" for a
      using that regs k [unfolded bytes_in_bar_def] by (intro regs_in_words [OF _ valid_request_offset [OF conjunct1 [OF True]]]) auto
    moreover have "4 * k \<le> unat count" using k by (simp add: bytes_in_bar_def)
    moreover have neg: "\<not> (valid_request d count f_pos \<and> \<not> lock_interrupted env (k_log s) dev \<and> dev_mut d)" using free by blast
    ultimately have "\<exists>n b. (of_nat (4 * k) :: ssize, f_pos + of_nat (4 * k)) = (of_nat n, f_pos + of_nat n) \<and>
        dev_bar d (pos_bar f_pos) = Some b \<and> n \<le> unat count \<and>
        (\<forall>a \<in> set (io_addrs new). \<exists>i. a = memmory_base b + of_nat i \<and> 4 dvd i \<and>
            i + 3 \<le> bar_size b \<and> pos_offset f_pos \<le> i \<and> i + 4 \<le> pos_offset f_pos + n)" using b(1) by blast
    with r show ?thesis unfolding if_not_P [OF neg] if_P [OF True] by blast
  qed
qed

theorem write_stays_in_bar_witness:
  "\<exists>n new. pcieuni_write_no_struct_exp (quiet_kernel\<lparr>copy_from_user_fails := (\<lambda>_ a. a = 0x5004)\<rparr>)
       ex_ti 7 0x5000 16 4 ex_kst = Inr ((of_nat n, 4 + of_nat n), ex_kst\<lparr>k_log := new\<rparr>) \<and> n \<le> 16 \<and>
    (\<forall>a \<in> set (io_addrs new). \<exists>i. 4 dvd i \<and> i + 3 \<le> 15 \<and> i + 4 \<le> 4 + n \<and> a = 0xC000 + of_nat i)"
proof -
  let ?env = "quiet_kernel\<lparr>copy_from_user_fails := (\<lambda>_ a. a = 0x5004)\<rparr>"
  have pos: "valid_request ex_dev 16 4 \<and> \<not> lock_interrupted ?env (k_log ex_kst) 0x2000"
    by (simp add: quiet_kernel_def ex_valid)
  have neg: "\<not> (valid_request ex_dev 16 4 \<and> \<not> lock_interrupted ?env (k_log ex_kst) 0x2000 \<and> dev_mut ex_dev)"
    by (simp add: ex_facts)
  have small: "(0x2000 :: ptr) \<noteq> NULL" "unat (16 :: u64) \<le> MAX_RW_COUNT" by simp_all
  from write_stays_in_bar [OF ex_facts(1) small(1) ex_facts(2) ex_bars small(2), of 4 ?env ex_ti "0x5000",
      unfolded if_not_P [OF neg] if_P [OF pos]]
  obtain r n b new where
    run: "pcieuni_write_no_struct_exp ?env ex_ti 7 0x5000 16 4 ex_kst = Inr (r, ex_kst\<lparr>k_log := new @ k_log ex_kst\<rparr>)"
    and r: "r = (of_nat n, 4 + of_nat n)" and b: "dev_bar ex_dev (pos_bar 4) = Some b" and n: "n \<le> unat (16 :: u64)"
    and regs: "\<forall>a \<in> set (io_addrs new). \<exists>i. a = memmory_base b + of_nat i \<and> 4 dvd i \<and> i + 3 \<le> bar_size b \<and>
      pos_offset 4 \<le> i \<and> i + 4 \<le> pos_offset 4 + n"
    by (elim exE conjE)
  have "\<exists>i. 4 dvd i \<and> i + 3 \<le> 15 \<and> i + 4 \<le> 4 + n \<and> a = 0xC000 + of_nat i" if "a \<in> set (io_addrs new)" for a
  proof -
    have bar: "memmory_base b = 0xC000" "bar_size b = 15" using b by (auto simp: ex_facts ex_valid)
    from bspec [OF regs that] obtain i where "a = memmory_base b + of_nat i" "4 dvd i" "i + 3 \<le> bar_size b"
      "i + 4 \<le> pos_offset 4 + n" by blast
    then show ?thesis unfolding bar ex_valid by blast
  qed
  with run r n show ?thesis by (intro exI [of _ n] exI [of _ new]) (simp add: ex_facts(8))
qed

text \<open>
  C20: the check of a request of at most \<open>MAX_RW_COUNT\<close> bytes returns 0 exactly for the valid requests
  and \<open>-EFAULT\<close> for all others. For a valid request it decodes the BAR and the offset, and the
  number of bytes to transfer is the count, limited to the distance from the offset to the last
  address of the BAR, which is one byte less than what is left of the BAR. Rounded up to whole
  words, as the transfer loops do, it is the count limited to the bytes left of the BAR, when the
  length of the BAR is divisible by four.
\<close>

theorem check_accepts_valid_requests:
  assumes "unat count \<le> MAX_RW_COUNT"
  shows "case checkAndCalculateTransferInformation d count f_pos junk of (r, ti) \<Rightarrow>
    r = (if valid_request d count f_pos then 0 else - EFAULT) \<and>
    (r = 0 \<longrightarrow> (\<exists>b. dev_bar d (pos_bar f_pos) = Some b \<and> barStart ti = memmory_base b \<and>
       barStart ti \<noteq> NULL \<and> unat (offset ti) = pos_offset f_pos \<and>
       unat (offset ti) + unat (nBytesToTransfer ti) \<le> bar_size b \<and>
       unat (nBytesToTransfer ti) = min (unat count) (bar_size b - pos_offset f_pos) \<and>
       (bar_size b mod 4 = 3 \<longrightarrow>
         4 * ((unat (nBytesToTransfer ti) + 3) div 4) = min (unat count) (bar_size b + 1 - pos_offset f_pos))))"
proof -
  obtain r ti where chk: "checkAndCalculateTransferInformation d count f_pos junk = (r, ti)" by fastforce
  then have r: "r = (if valid_request d count f_pos then 0 else - EFAULT)"
    using check_code [of d count f_pos junk] by simp
  have nowrap: "pos_offset f_pos + unat count < 2 ^ 64"
    using pos_offset_less [of f_pos] assms by simp
  have "\<exists>b. dev_bar d (pos_bar f_pos) = Some b \<and> barStart ti = memmory_base b \<and>
       barStart ti \<noteq> NULL \<and> unat (offset ti) = pos_offset f_pos \<and>
       unat (offset ti) + unat (nBytesToTransfer ti) \<le> bar_size b \<and>
       unat (nBytesToTransfer ti) = min (unat count) (bar_size b - pos_offset f_pos) \<and>
       (bar_size b mod 4 = 3 \<longrightarrow>
         4 * ((unat (nBytesToTransfer ti) + 3) div 4) = min (unat count) (bar_size b + 1 - pos_offset f_pos))"
    if "r = 0"
  proof (rule check_info [OF chk [unfolded that] nowrap])
    fix b
    assume b: "dev_bar d (pos_bar f_pos) = Some b" "memmory_base b \<noteq> NULL"
      "barStart ti = memmory_base b" "unat (offset ti) = pos_offset f_pos"
      "4 dvd pos_offset f_pos" "4 dvd unat count" "pos_offset f_pos \<le> bar_size b"
      "unat (nBytesToTransfer ti) = min (unat count) (bar_size b - pos_offset f_pos)"
    note round_up_words [OF b(6,5) _ b(7)]
    with b show ?thesis by (intro exI [of _ b]) simp
  qed
  with chk r show ?thesis by simp
qed

theorem check_accepts_valid_requests_witness:
  "fst (checkAndCalculateTransferInformation ex_dev 16 4 ex_ti) = 0 \<and>
   fst (checkAndCalculateTransferInformation ex_dev 16 20 ex_ti) = - EFAULT"
  using check_accepts_valid_requests [of 16 ex_dev 4 ex_ti]
    check_accepts_valid_requests [of 16 ex_dev 20 ex_ti]
  by (auto simp: ex_valid valid_request_def ex_facts pos_bar_def pos_offset_def)

text \<open>
  The positions the header publishes for user programs decode to the BAR and offset they
  were made from, for every BAR and every offset below \<open>2 ^ 60\<close>.
\<close>

theorem bar_offsets_roundtrip:
  assumes "k < length PCIEUNI_BAR_OFFSETS" and "off < 2 ^ 60"
  shows "pos_bar (PCIEUNI_BAR_OFFSETS ! k + of_nat off) = k \<and>
         pos_offset (PCIEUNI_BAR_OFFSETS ! k + of_nat off) = off"
proof -
  have k: "k < 6" using assms(1) by (simp add: PCIEUNI_BAR_OFFSETS_def)
  have "PCIEUNI_BAR_OFFSETS ! k = of_nat (k * 2 ^ 60)"
  proof -
    have "k = 0 \<or> k = 1 \<or> k = 2 \<or> k = 3 \<or> k = 4 \<or> k = 5" using k by auto
    then show ?thesis by (elim disjE) (simp_all add: PCIEUNI_BAR_OFFSETS_def)
  qed
  then have "PCIEUNI_BAR_OFFSETS ! k + of_nat off = of_nat (k * 2 ^ 60 + off)"
    by (simp only: of_nat_add)
  moreover have "k * 2 ^ 60 + off < 2 ^ LENGTH(64)" using k assms(2) by simp
  ultimately have "unat (PCIEUNI_BAR_OFFSETS ! k + of_nat off) = k * 2 ^ 60 + off"
    by (simp only: unat_of_nat_small)
  then show ?thesis using assms(2) k by (simp add: pos_bar_def pos_offset_def)
qed

theorem bar_offsets_roundtrip_witness:
  "pos_bar (PCIEUNI_BAR_OFFSETS ! 2 + of_nat 64) = 2 \<and> pos_offset (PCIEUNI_BAR_OFFSETS ! 2 + of_nat 64) = 64"
  using bar_offsets_roundtrip [of 2 64] by (simp add: PCIEUNI_BAR_OFFSETS_def)

text \<open>
  C22: an invalid request changes nothing and returns \<open>-EFAULT\<close>; a signal while waiting for
  the mutex changes nothing and returns \<open>-ERESTARTSYS\<close>. Both leave the file position.
\<close>

theorem rw_error_paths:
  assumes "k_priv s fp = dev" and "dev \<noteq> NULL" and "k_dev s dev = Some d"
    and "valid_request d count f_pos \<longrightarrow> lock_interrupted env (k_log s) dev"
  shows "pcieuni_read_no_struct_exp env junk fp buf count f_pos s =
      Inr ((if valid_request d count f_pos then - 512 else - 14, f_pos), s) \<and>
    pcieuni_write_no_struct_exp env junk fp buf count f_pos s =
      Inr ((if valid_request d count f_pos then - 512 else - 14, f_pos), s)"
  using assms by (cases "valid_request d count f_pos")
    (simp_all add: rd.handler_rejects rd.handler_signal wr.handler_rejects wr.handler_signal)

theorem rw_error_paths_witness:
  "pcieuni_read_no_struct_exp quiet_kernel ex_ti 7 0x5000 3 4 ex_kst = Inr ((- 14, 4), ex_kst)"
  using rw_error_paths [of ex_kst 7 "0x2000" ex_dev 3 4 quiet_kernel ex_ti "0x5000"]
  by (simp add: ex_facts valid_request_def)

text \<open>
  The boundary of the termination argument. On a BAR of 4 GiB, a read of \<open>2 ^ 32\<close> bytes or
  more from its start, which the virtual file system never passes on, would not return: the
  32-bit byte counter wraps before it reaches the limit.
\<close>

theorem read_4GiB_diverges:
  assumes "k_priv s fp = dev" and "dev \<noteq> NULL" and "k_dev s dev = Some d" and "\<not> dev_mut d"
    and "valid_request d count f_pos" and "dev_bar d (pos_bar f_pos) = Some b"
    and "bar_size b = 2 ^ 32 - 1" and "pos_offset f_pos = 0" and "2 ^ 32 \<le> unat count"
    and "\<not> lock_interrupted env (k_log s) dev"
    and "\<And>l a. \<not> copy_to_user_fails env l a"
  shows "pcieuni_read_no_struct_exp env junk fp buf count f_pos s = Inl Diverges"
proof -
  obtain ti where chk: "checkAndCalculateTransferInformation d count f_pos junk = (0, ti)"
    using check_code [of d count f_pos junk] assms(5) by (metis prod.collapse)
  have "pos_offset f_pos + unat count < 2 ^ 64" using assms(8) unat_u64_less [of count] by simp
  from check_info [OF chk this] assms(6-9)
  have "unat (nBytesToTransfer ti) = 2 ^ 32 - 1" by auto
  then have "2 ^ 32 \<le> unat (nBytesToTransfer ti) + 3" by simp
  from rd.handler_diverges [OF assms(1-4) chk assms(10) this, of buf]
  show ?thesis using assms(11) by (simp add: read_word_eq Let_def)
qed

definition ex_big_dev :: pcieuni_dev where
  "ex_big_dev = ex_dev\<lparr>bar0 := (bar0 ex_dev)\<lparr>mem_base := 1, mem_base_end := 0\<rparr>\<rparr>"

theorem read_4GiB_diverges_witness:
  "pcieuni_read_no_struct_exp quiet_kernel ex_ti 7 0x5000 0x100000000 0
     (ex_kst\<lparr>k_dev := [0x2000 \<mapsto> ex_big_dev]\<rparr>) = Inl Diverges"
  by (rule read_4GiB_diverges [where dev = "0x2000" and d = ex_big_dev and b = "bar0 ex_big_dev"])
    (simp_all add: ex_kst_def empty_kst_def ex_big_dev_def ex_dev_def zero_dev_def valid_request_def
      pos_bar_def pos_offset_def dev_bar_def bar_size_def quiet_kernel_def
      unsigned_minus_1_eq_mask mask_eq_exp_minus_1)

text \<open>A run stops at the first word whose body fails.\<close>

lemma run_words_until:
  assumes "\<And>j s. j < i \<Longrightarrow> \<not> fst (body (of_nat (4 * j)) s)" and "\<And>s. fst (body (of_nat (4 * i)) s)"
    and "i < K"
  shows "fst (run_words body (word_offsets 0 K) s) = i"
proof -
  obtain k t where run: "run_words body (word_offsets 0 K) s = (k, t)" by fastforce
  have "0 + k = i"
  proof (rule run_words_induct [where P = "\<lambda>j s. j \<le> i" and Q = "\<lambda>j s. j = i", OF run])
    fix j s s' assume j: "j \<le> i"
    show "Suc j \<le> i" if "body (of_nat (4 * j)) s = (False, s')"
      using assms(2) [of s] that j by (cases "j = i") (simp_all del: of_nat_mult)
    show "j = i" if "body (of_nat (4 * j)) s = (True, s')"
      using assms(1) [of j s] that j by (cases "j = i") (simp_all del: of_nat_mult)
  qed (use assms(3) in simp_all)
  then show ?thesis by (simp add: run)
qed

text \<open>
  C23: when the user page of word \<open>i\<close> faults, read and write stop there, release the mutex and
  report the \<open>4 * i\<close> bytes that were transferred.
\<close>

theorem rw_reports_partial_transfer:
  assumes dev: "k_priv s fp = dev" "dev \<noteq> NULL" "k_dev s dev = Some d" "\<not> dev_mut d"
    and valid: "valid_request d count f_pos" and b: "dev_bar d (pos_bar f_pos) = Some b"
    and al: "bar_size b mod 4 = 3" and lim: "unat count \<le> MAX_RW_COUNT"
    and sig: "\<not> lock_interrupted env (k_log s) dev"
    and i: "4 * i < bytes_in_bar b count f_pos"
    and out: "\<And>l a. copy_to_user_fails env l a = (a = buf + of_nat (4 * i))"
    and inp: "\<And>l a. copy_from_user_fails env l a = (a = buf + of_nat (4 * i))"
  shows "(\<exists>l. pcieuni_read_no_struct_exp env junk fp buf count f_pos s =
        Inr ((of_nat (4 * i), f_pos + of_nat (4 * i)), s\<lparr>k_log := l\<rparr>)) \<and>
    (\<exists>l. pcieuni_write_no_struct_exp env junk fp buf count f_pos s =
        Inr ((of_nat (4 * i), f_pos + of_nat (4 * i)), s\<lparr>k_log := l\<rparr>))"
proof -
  from transfer_facts [OF valid b al lim] obtain ti where
    chk: "checkAndCalculateTransferInformation d count f_pos junk = (0, ti)"
    and N: "unat (nBytesToTransfer ti) + 3 < 2 ^ 32"
    and K: "4 * words_of (nBytesToTransfer ti) = bytes_in_bar b count f_pos"
      "words_of (nBytesToTransfer ti) \<le> 2 ^ 30"
    by metis
  let ?K = "words_of (nBytesToTransfer ti)"
  have iK: "i < ?K" using i K by simp
  have at: "ucast (of_nat (4 * j) :: u32) = (of_nat (4 * i) :: u64) \<longleftrightarrow> j = i" if "j \<le> i" for j
    using that iK K(2) word_count [of j] of_nat_inj_u64 [of j i] by (simp del: of_nat_mult)
  have r: "fst (run_words (read_word env (barStart ti) (offset ti) buf) (word_offsets 0 ?K) t) = i"
    for t :: "'a kst_scheme"
    by (rule run_words_until [OF _ _ iK]) (simp_all add: read_word_eq Let_def out at del: of_nat_mult)
  have w: "fst (run_words (write_word env (barStart ti) (offset ti) buf) (word_offsets 0 ?K) t) = i"
    for t :: "'a kst_scheme"
    by (rule run_words_until [OF _ _ iK]) (simp_all add: write_word_eq Let_def inp at del: of_nat_mult)
  show ?thesis
    using rd.handler_runs [OF dev chk sig N prod.collapse [symmetric], of buf]
      wr.handler_runs [OF dev chk sig N prod.collapse [symmetric], of buf]
    by (auto simp: r w simp del: of_nat_mult)
qed

theorem rw_reports_partial_transfer_witness:
  "\<exists>l. pcieuni_read_no_struct_exp (quiet_kernel\<lparr>copy_to_user_fails := (\<lambda>_ a. a = 0x5004),
       copy_from_user_fails := (\<lambda>_ a. a = 0x5004)\<rparr>) ex_ti 7 0x5000 16 4 ex_kst =
     Inr ((4, 8), ex_kst\<lparr>k_log := l\<rparr>)"
  using rw_reports_partial_transfer [where s = ex_kst and fp = 7 and dev = "0x2000" and d = ex_dev
      and count = 16 and f_pos = 4 and b = "bar0 ex_dev" and junk = ex_ti and buf = "0x5000" and i = 1
      and env = "quiet_kernel\<lparr>copy_to_user_fails := (\<lambda>_ a. a = 0x5004),
       copy_from_user_fails := (\<lambda>_ a. a = 0x5004)\<rparr>"]
  by (simp add: ex_facts ex_valid quiet_kernel_def)

text \<open>
  C21: on a board whose registers keep the value last written to them, reading back a range
  that was just written returns the same count and the very words that were written.
\<close>

theorem write_read_roundtrip:
  assumes dev: "k_priv s fp = dev" "dev \<noteq> NULL" "k_dev s dev = Some d" "\<not> dev_mut d"
    and valid: "valid_request d count f_pos" and b: "dev_bar d (pos_bar f_pos) = Some b"
    and al: "bar_size b mod 4 = 3" and lim: "unat count \<le> MAX_RW_COUNT"
    and sig: "\<And>l. \<not> lock_interrupted env l dev"
    and pages: "\<And>l a. \<not> copy_to_user_fails env l a" "\<And>l a. \<not> copy_from_user_fails env l a"
    and user: "\<And>l a. user_word env l a = user a"
    and ram: "\<And>l a w. reg_written l a = Some w \<Longrightarrow> ioread32_ret env l a = w"
  shows "\<exists>n s1 new. pcieuni_write_no_struct_exp env junk fp buf count f_pos s = Inr ((n, f_pos + n), s1) \<and>
    pcieuni_read_no_struct_exp env junk fp buf' count f_pos s1 =
      Inr ((n, f_pos + n), s1\<lparr>k_log := new @ k_log s1\<rparr>) \<and> n = of_nat (bytes_in_bar b count f_pos) \<and>
    (\<forall>i < bytes_in_bar b count f_pos div 4.
       copied_out new (buf' + of_nat (4 * i)) = Some (user (buf + of_nat (4 * i))))"
proof (rule write_result [OF dev valid b al lim sig, where R = "\<lambda>a w. w = user a" and junk = junk and buf = buf])
  let ?a = "\<lambda>m. memmory_base b + of_nat (pos_offset f_pos) + of_nat (4 * m)"
  show "user_word env l a = user a" for l a by (rule user)
  fix k new
  assume wr: "pcieuni_write_no_struct_exp env junk fp buf count f_pos s =
       Inr ((of_nat (4 * k), f_pos + of_nat (4 * k)), s\<lparr>k_log := new @ k_log s\<rparr>)"
    and "(\<And>l a. \<not> copy_from_user_fails env l a) \<Longrightarrow> 4 * k = bytes_in_bar b count f_pos"
    and w: "\<forall>m<k. \<exists>w. reg_written new (?a m) = Some w \<and> w = user (buf + of_nat (4 * m))"
  then have k: "bytes_in_bar b count f_pos = 4 * k" using pages(2) by simp
  let ?s1 = "s\<lparr>k_log := new @ k_log s\<rparr>"
  let ?R = "\<lambda>a v. \<forall>m<k. a = ?a m \<longrightarrow> v = user (buf + of_nat (4 * m))"
  have R: "?R a (ioread32_ret env l a)" if "reg_written l = reg_written (k_log ?s1)" for l a
    using that w by (auto simp: reg_written_append intro!: ram)
  have dev1: "k_priv ?s1 fp = dev" "k_dev ?s1 dev = Some d" using dev by simp_all
  show ?thesis
  proof (rule read_result [OF dev1(1) dev(2) dev1(2) dev(4) valid b al lim sig, where R = ?R
        and junk = junk and buf = buf', OF R])
    fix k' new'
    assume rd: "pcieuni_read_no_struct_exp env junk fp buf' count f_pos ?s1 =
        Inr ((of_nat (4 * k'), f_pos + of_nat (4 * k')), ?s1\<lparr>k_log := new' @ k_log ?s1\<rparr>)"
      and "(\<And>l a. \<not> copy_to_user_fails env l a) \<Longrightarrow> 4 * k' = bytes_in_bar b count f_pos"
      and out: "\<forall>m<k'. \<exists>v. copied_out new' (buf' + of_nat (4 * m)) = Some v \<and> ?R (?a m) v"
    then have "k' = k" using k pages(1) by simp
    then have "\<forall>i<k. copied_out new' (buf' + of_nat (4 * i)) = Some (user (buf + of_nat (4 * i)))"
      using out by blast
    then show ?thesis unfolding k using wr rd \<open>k' = k\<close>
      by (intro exI [of _ "of_nat (4 * k)"] exI [of _ ?s1] exI [of _ new']) (simp del: of_nat_mult)
  qed
qed

theorem write_read_roundtrip_witness:
  "\<exists>n s1 new. pcieuni_write_no_struct_exp
       (quiet_kernel\<lparr>user_word := (\<lambda>_ a. ucast a),
          ioread32_ret := (\<lambda>l a. case reg_written l a of None \<Rightarrow> 0 | Some w \<Rightarrow> w)\<rparr>)
       ex_ti 7 0x5000 16 4 ex_kst = Inr ((n, 4 + n), s1) \<and>
     pcieuni_read_no_struct_exp
       (quiet_kernel\<lparr>user_word := (\<lambda>_ a. ucast a),
          ioread32_ret := (\<lambda>l a. case reg_written l a of None \<Rightarrow> 0 | Some w \<Rightarrow> w)\<rparr>)
       ex_ti 7 0x6000 16 4 s1 = Inr ((n, 4 + n), s1\<lparr>k_log := new @ k_log s1\<rparr>) \<and>
     copied_out new 0x6008 = Some 0x5008"
  using write_read_roundtrip [where s = ex_kst and fp = 7 and dev = "0x2000" and d = ex_dev
      and count = 16 and f_pos = 4 and b = "bar0 ex_dev" and junk = ex_ti and buf = "0x5000"
      and buf' = "0x6000" and user = ucast
      and env = "quiet_kernel\<lparr>user_word := (\<lambda>_ a. ucast a),
          ioread32_ret := (\<lambda>l a. case reg_written l a of None \<Rightarrow> 0 | Some w \<Rightarrow> w)\<rparr>"]
  by (fastforce simp: ex_facts ex_valid quiet_kernel_def dest!: spec [of _ 2])

text \<open>
  The limit of the byte count is computed modulo \<open>2 ^ 64\<close>, so it is the caller's bound on
  the count that makes it effective: on a BAR of 16 bytes, a count of \<open>2 ^ 64 - 4\<close> at offset 8
  passes the check with \<open>2 ^ 32 - 4\<close> bytes to transfer.
\<close>

theorem check_limit_wraps:
  "fst (checkAndCalculateTransferInformation ex_dev (2 ^ 64 - 4) 8 ex_ti) = 0 \<and>
   unat (nBytesToTransfer (snd (checkAndCalculateTransferInformation ex_dev (2 ^ 64 - 4) 8 ex_ti)))
     = 2 ^ 32 - 4 \<and> bar_size (bar0 ex_dev) = 15"
  by (simp add: checkAndCalculateTransferInformation_def ex_dev_def zero_dev_def dev_bar_def Let_def
      bar_size_def ex_ti_def)

end
