(* ===== verification/Buffer_List.thy ===== *)
theory Buffer_List
  imports Device_Data
begin

text \<open>
  \<open>pcieuni_buffer.h\<close> and \<open>pcieuni_buffer.c\<close>: DMA buffers and the circular list of buffers that
  device drivers take from and give back to.

  The driver's memory is extended by the buffers and the buffer lists, by address. The kernel
  list \<open>head\<close> is the list of the buffers' addresses (the \<open>list\<close> node is the first field of a
  buffer, so \<open>list_entry\<close> is the identity); \<open>next\<close> is a buffer's address or null. The state of
  a buffer is a word whose bits the kernel's \<open>set_bit\<close>, \<open>clear_bit\<close> and \<open>test_bit\<close> change and
  test by number.

  While \<open>get_free\<close> and \<open>clear\<close> wait on the wait queue, the spin lock is free and other threads
  may use the list: the parameter \<open>wait\<close> gives the code \<open>wait_event_timeout\<close> returns and the
  memory as the others have left it.
\<close>

section \<open>Structures\<close>

record pcieuni_buffer =
  b_size :: u64
  b_order :: u32
  b_kaddr :: ptr
  b_dma_handle :: ptr
  b_dma_offset :: u64
  b_dma_size :: u64
  b_state :: u64

record pcieuni_buffer_list =
  parentDev :: ptr
  bl_head :: "ptr list"
  bl_next :: ptr
  bl_lock :: bool
  shutDownFlag :: c_int

definition zero_buffer :: pcieuni_buffer where
  "zero_buffer = \<lparr>b_size = 0, b_order = 0, b_kaddr = 0, b_dma_handle = 0, b_dma_offset = 0,
     b_dma_size = 0, b_state = 0\<rparr>"

text \<open>The flags of \<open>pcieuni_buffer_state_flags\<close>, used as bit numbers.\<close>

definition BUFFER_STATE_AVAILABLE :: nat where "BUFFER_STATE_AVAILABLE = 1"
definition BUFFER_STATE_WAITING :: nat where "BUFFER_STATE_WAITING = 2"

abbreviation available :: "pcieuni_buffer \<Rightarrow> bool" where
  "available b \<equiv> bit (b_state b) BUFFER_STATE_AVAILABLE"

abbreviation waiting :: "pcieuni_buffer \<Rightarrow> bool" where
  "waiting b \<equiv> bit (b_state b) BUFFER_STATE_WAITING"

text \<open>Error codes as pointers.\<close>

definition ERR_PTR :: "c_int \<Rightarrow> ptr" where
  "ERR_PTR e = scast e"

record bst = kst +
  k_buf :: "ptr \<Rightarrow> pcieuni_buffer option"
  k_blist :: "ptr \<Rightarrow> pcieuni_buffer_list option"

type_synonym waiter = "ptr \<Rightarrow> ptr \<Rightarrow> bst \<Rightarrow> c_int \<times> bst"

section \<open>Access to buffers and lists\<close>

definition get_buf :: "ptr \<Rightarrow> (bst, pcieuni_buffer) km" where
  "get_buf p s = (if p = NULL then Inl NullDeref else
     (case k_buf s p of None \<Rightarrow> Inl NullDeref | Some b \<Rightarrow> Inr (b, s)))"

definition upd_buf :: "ptr \<Rightarrow> (pcieuni_buffer \<Rightarrow> pcieuni_buffer) \<Rightarrow> (bst, unit) km" where
  "upd_buf p f = kbind (get_buf p) (\<lambda>b. kmod (\<lambda>s. s\<lparr>k_buf := (k_buf s)(p \<mapsto> f b)\<rparr>))"

definition get_bl :: "ptr \<Rightarrow> (bst, pcieuni_buffer_list) km" where
  "get_bl p s = (if p = NULL then Inl NullDeref else
     (case k_blist s p of None \<Rightarrow> Inl NullDeref | Some l \<Rightarrow> Inr (l, s)))"

definition upd_bl :: "ptr \<Rightarrow> (pcieuni_buffer_list \<Rightarrow> pcieuni_buffer_list) \<Rightarrow> (bst, unit) km" where
  "upd_bl p f = kbind (get_bl p) (\<lambda>l. kmod (\<lambda>s. s\<lparr>k_blist := (k_blist s)(p \<mapsto> f l)\<rparr>))"

text \<open>A spin lock that is taken and never released is waited for for ever.\<close>

definition spin_lock :: "ptr \<Rightarrow> (bst, unit) km" where
  "spin_lock p = kbind (get_bl p) (\<lambda>l.
     if bl_lock l then kfail Deadlock else upd_bl p (bl_lock_update (\<lambda>_. True)))"

definition spin_unlock :: "ptr \<Rightarrow> (bst, unit) km" where
  "spin_unlock p = upd_bl p (bl_lock_update (\<lambda>_. False))"

definition buf_set_bit :: "nat \<Rightarrow> ptr \<Rightarrow> (bst, unit) km" where
  "buf_set_bit n p = upd_buf p (\<lambda>b. b\<lparr>b_state := set_bit n (b_state b)\<rparr>)"

definition buf_clear_bit :: "nat \<Rightarrow> ptr \<Rightarrow> (bst, unit) km" where
  "buf_clear_bit n p = upd_buf p (\<lambda>b. b\<lparr>b_state := unset_bit n (b_state b)\<rparr>)"

text \<open>The node after a node of a kernel list; \<open>None\<close> is the list head.\<close>

fun list_next :: "ptr list \<Rightarrow> ptr \<Rightarrow> ptr option" where
  "list_next [] p = None"
| "list_next [x] p = None"
| "list_next (x # y # xs) p = (if x = p then Some y else list_next (y # xs) p)"

section \<open>Creating and destroying a buffer\<close>

text \<open>The loops over the pages of a buffer: \<open>for(iter = 0; iter < size; iter += PAGE_SIZE)\<close>.\<close>

partial_function (option) page_loop ::
  "(u64 \<Rightarrow> kcall) \<Rightarrow> u64 \<Rightarrow> u64 \<Rightarrow> u64 \<Rightarrow> bst \<Rightarrow> bst option" where
  "page_loop ev page_size sz iter s =
     (if iter < sz then page_loop ev page_size sz (iter + page_size) (log_add (ev iter) s)
      else Some s)"

definition for_pages :: "kenv \<Rightarrow> (u64 \<Rightarrow> kcall) \<Rightarrow> u64 \<Rightarrow> (bst, unit) km" where
  "for_pages env ev sz =
     kloop (\<lambda>s. map_option (\<lambda>t. Inr ((), t)) (page_loop ev (2 ^ page_shift env) sz 0 s))"

definition pcieuni_buffer_destroy :: "kenv \<Rightarrow> ptr \<Rightarrow> ptr \<Rightarrow> (bst, unit) km" where
  "pcieuni_buffer_destroy env dev buffer =
     (if buffer = NULL then kret ()
      else
        kbind (get_buf buffer) (\<lambda>b.
        kseq (kwhen (b_kaddr b \<noteq> NULL) (
          kbind (get_dev dev) (\<lambda>d.
          kseq (kwhen (\<not> dma_mapping_error_ret env (pcieuni_pci_dev d) (b_dma_handle b))
                  (log_call (Mem (Dma_unmap_single (pcieuni_pci_dev d) (b_dma_handle b) (b_size b)))))
          (kseq (for_pages env (\<lambda>iter. Mem (ClearPageReserved (b_kaddr b + iter))) (b_size b))
          (log_call (Mem (Free_pages (b_kaddr b) (b_order b))))))))
        (kseq (kmod (\<lambda>s. s\<lparr>k_buf := (k_buf s)(buffer := None)\<rparr>))
        (log_call (Mem (Kfree buffer))))))"

text \<open>
  The size is computed by shifting an \<open>int\<close>, then converted to \<open>unsigned long\<close>. The random
  failure of the test build is not compiled in.
\<close>

definition pcieuni_buffer_create :: "kenv \<Rightarrow> ptr \<Rightarrow> u64 \<Rightarrow> (bst, ptr) km" where
  "pcieuni_buffer_create env dev bufSize =
     kbind (klift (kzalloc env)) (\<lambda>buffer.
     if buffer = NULL then kret (ERR_PTR (- ENOMEM))
     else
       kseq (kmod (\<lambda>s. s\<lparr>k_buf := (k_buf s)(buffer \<mapsto> zero_buffer)\<rparr>)) (
       kseq (upd_buf buffer (\<lambda>b. b\<lparr>b_order := get_order_ret env bufSize\<rparr>)) (
       kseq (upd_buf buffer (\<lambda>b. b\<lparr>b_size :=
               scast (push_bit (unat (b_order b + of_nat (page_shift env))) (1 :: c_int))\<rparr>)) (
       kseq (buf_set_bit BUFFER_STATE_AVAILABLE buffer) (
       kseq (buf_clear_bit BUFFER_STATE_WAITING buffer) (
       kbind (get_buf buffer) (\<lambda>b.
       kbind (kget (\<lambda>s. get_free_pages_ret env (k_log s) (b_order b))) (\<lambda>kaddr.
       kseq (log_call (Mem (Get_free_pages (b_order b) kaddr))) (
       kseq (upd_buf buffer (\<lambda>b. b\<lparr>b_kaddr := kaddr\<rparr>)) (
       kbind (get_dev dev) (\<lambda>d.
       if kaddr = NULL then
         kseq (pcieuni_buffer_destroy env dev buffer) (kret (ERR_PTR (- ENOMEM)))
       else
         kseq (for_pages env (\<lambda>iter. Mem (SetPageReserved (kaddr + iter))) (b_size b)) (
         kbind (kget (\<lambda>s. dma_map_single_ret env (k_log s) kaddr (b_size b))) (\<lambda>handle.
         kseq (log_call (Mem (Dma_map_single (pcieuni_pci_dev d) kaddr (b_size b) handle))) (
         kseq (upd_buf buffer (\<lambda>b. b\<lparr>b_dma_handle := handle\<rparr>)) (
         if dma_mapping_error_ret env (pcieuni_pci_dev d) handle then
           kseq (pcieuni_buffer_destroy env dev buffer) (kret (ERR_PTR (- ENOMEM)))
         else kret buffer)))))))))))))))"

section \<open>The list of buffers\<close>

definition pcieuni_bufferList_init :: "ptr \<Rightarrow> ptr \<Rightarrow> (bst, unit) km" where
  "pcieuni_bufferList_init bufferList parent =
     upd_bl bufferList (\<lambda>l. l\<lparr>parentDev := parent, bl_lock := False, bl_head := [],
                             bl_next := NULL, shutDownFlag := 0\<rparr>)"

definition pcieuni_bufferList_append :: "ptr \<Rightarrow> ptr \<Rightarrow> (bst, unit) km" where
  "pcieuni_bufferList_append list buffer =
     kseq (spin_lock list) (
     kseq (kbind (get_buf buffer) (\<lambda>_. upd_bl list (\<lambda>l. l\<lparr>bl_head := bl_head l @ [buffer]\<rparr>))) (
     kseq (kbind (get_bl list) (\<lambda>l.
       kwhen (length (bl_head l) = 1) (upd_bl list (\<lambda>l. l\<lparr>bl_next := hd (bl_head l)\<rparr>)))) (
     spin_unlock list)))"

text \<open>
  One pass of the wait loop of \<open>get_free\<close>: an error to return, or the buffer to test next.
  The second check of the shutdown flag returns with the spin lock held, as the source does.
\<close>

datatype gf_step = GfReturn ptr | GfAgain ptr

definition get_free_wait :: "waiter \<Rightarrow> ptr \<Rightarrow> ptr \<Rightarrow> (bst, gf_step) km" where
  "get_free_wait wait list buffer =
     kseq (spin_unlock list) (
     kbind (klift (wait list buffer)) (\<lambda>code.
     kseq (log_call (Sync (Wait_event_timeout list code))) (
     if code = 0 then kret (GfReturn (ERR_PTR (- EBUSY)))
     else if sint code < 0 then kret (GfReturn (ERR_PTR (- EINTR)))
     else
       kseq (spin_lock list) (
       kbind (get_bl list) (\<lambda>l.
       if shutDownFlag l \<noteq> 0 then kret (GfReturn (ERR_PTR (- EINTR)))
       else kret (GfAgain (bl_next l)))))))"

partial_function (option) get_free_loop ::
  "waiter \<Rightarrow> ptr \<Rightarrow> ptr \<Rightarrow> bst \<Rightarrow> (kfault + (gf_step \<times> bst)) option" where
  "get_free_loop wait list buffer s =
     (case get_buf buffer s of
        Inl e \<Rightarrow> Some (Inl e)
      | Inr (b, s1) \<Rightarrow>
          (if available b then Some (Inr (GfAgain buffer, s1))
           else
             (case get_free_wait wait list buffer s1 of
                Inl e \<Rightarrow> Some (Inl e)
              | Inr (GfReturn r, s2) \<Rightarrow> Some (Inr (GfReturn r, s2))
              | Inr (GfAgain buffer', s2) \<Rightarrow> get_free_loop wait list buffer' s2)))"

text \<open>Reserving the buffer and moving on in the circle, with the lock held.\<close>

definition get_free_reserve :: "ptr \<Rightarrow> ptr \<Rightarrow> (bst, ptr) km" where
  "get_free_reserve list buffer =
     kseq (buf_clear_bit BUFFER_STATE_AVAILABLE buffer) (
     kseq (buf_set_bit BUFFER_STATE_WAITING buffer) (
     kbind (get_bl list) (\<lambda>l.
     kseq (if bl_next l \<notin> set (bl_head l) then kfail NullDeref
           else (case list_next (bl_head l) (bl_next l) of
                   None \<Rightarrow> upd_bl list (\<lambda>l. l\<lparr>bl_next := hd (bl_head l)\<rparr>)
                 | Some q \<Rightarrow> upd_bl list (\<lambda>l. l\<lparr>bl_next := q\<rparr>))) (
     kseq (spin_unlock list) (kret buffer)))))"

definition pcieuni_bufferList_get_free :: "waiter \<Rightarrow> ptr \<Rightarrow> (bst, ptr) km" where
  "pcieuni_bufferList_get_free wait list =
     kseq (spin_lock list) (
     kbind (get_bl list) (\<lambda>l.
     if shutDownFlag l \<noteq> 0 then kseq (spin_unlock list) (kret (ERR_PTR (- ENOMEM)))
     else
       kbind (kloop (get_free_loop wait list (bl_next l))) (\<lambda>step.
       case step of GfReturn r \<Rightarrow> kret r | GfAgain buffer \<Rightarrow> get_free_reserve list buffer)))"

definition pcieuni_bufferList_set_free :: "ptr \<Rightarrow> ptr \<Rightarrow> (bst, unit) km" where
  "pcieuni_bufferList_set_free list buffer =
     kseq (spin_lock list) (
     kseq (buf_clear_bit BUFFER_STATE_WAITING buffer) (
     kseq (buf_set_bit BUFFER_STATE_AVAILABLE buffer) (
     kseq (spin_unlock list)
     (log_call (Sync (Wake_up list))))))"

text \<open>
  \<open>clear\<close>: the inner loop waits for one buffer and yields the last code; one entry of the outer
  loop unlinks the buffer and destroys it when the code is positive. The next entry is fixed
  before the wait, as \<open>list_for_each_safe\<close> does; \<open>None\<close> is the list head.
\<close>

partial_function (option) clear_wait ::
  "waiter \<Rightarrow> ptr \<Rightarrow> ptr \<Rightarrow> c_int \<Rightarrow> bst \<Rightarrow> (kfault + (c_int \<times> bst)) option" where
  "clear_wait wait list buffer code s =
     (case get_buf buffer s of
        Inl e \<Rightarrow> Some (Inl e)
      | Inr (b, s1) \<Rightarrow>
          (if available b then Some (Inr (code, s1))
           else
             (case kseq (spin_unlock list) (klift (wait list buffer)) s1 of
                Inl e \<Rightarrow> Some (Inl e)
              | Inr (code', s2) \<Rightarrow>
                  (case kseq (log_call (Sync (Wait_event_timeout list code'))) (spin_lock list) s2 of
                     Inl e \<Rightarrow> Some (Inl e)
                   | Inr (_, s3) \<Rightarrow> clear_wait wait list buffer code' s3))))"

text \<open>\<open>list_del\<close> of a node that is no longer linked follows poisoned pointers: it faults.\<close>

definition clear_unlink :: "kenv \<Rightarrow> ptr \<Rightarrow> ptr \<Rightarrow> c_int \<Rightarrow> (bst, unit) km" where
  "clear_unlink env list pos code =
     kbind (get_bl list) (\<lambda>l.
     if pos \<notin> set (bl_head l) then kfail NullDeref
     else
       kseq (upd_bl list (\<lambda>l. l\<lparr>bl_head := remove1 pos (bl_head l)\<rparr>))
       (kwhen (0 < sint code)
          (kbind (get_bl list) (\<lambda>l. pcieuni_buffer_destroy env (parentDev l) pos))))"

definition clear_entry :: "kenv \<Rightarrow> waiter \<Rightarrow> ptr \<Rightarrow> ptr \<Rightarrow> (bst, ptr option) km" where
  "clear_entry env wait list pos =
     kbind (get_bl list) (\<lambda>l.
     kbind (kret (list_next (bl_head l) pos)) (\<lambda>tpos.
     kbind (kloop (clear_wait wait list pos 1)) (\<lambda>code.
     kseq (clear_unlink env list pos code) (kret tpos))))"

partial_function (option) clear_loop ::
  "kenv \<Rightarrow> waiter \<Rightarrow> ptr \<Rightarrow> ptr option \<Rightarrow> bst \<Rightarrow> (kfault + (unit \<times> bst)) option" where
  "clear_loop env wait list pos s =
     (case pos of
        None \<Rightarrow> Some (Inr ((), s))
      | Some p \<Rightarrow>
          (case clear_entry env wait list p s of
             Inl e \<Rightarrow> Some (Inl e)
           | Inr (tpos, s') \<Rightarrow> clear_loop env wait list tpos s'))"

definition pcieuni_bufferList_clear :: "kenv \<Rightarrow> waiter \<Rightarrow> ptr \<Rightarrow> (bst, unit) km" where
  "pcieuni_bufferList_clear env wait list =
     kseq (spin_lock list) (
     kseq (upd_bl list (\<lambda>l. l\<lparr>shutDownFlag := 1\<rparr>)) (
     kbind (get_bl list) (\<lambda>l.
     kseq (kloop (clear_loop env wait list
             (case bl_head l of [] \<Rightarrow> None | p # _ \<Rightarrow> Some p)))
     (spin_unlock list))))"

section \<open>Evaluation rules\<close>

lemma get_buf_app [km_simps]: "p \<noteq> NULL \<Longrightarrow> k_buf s p = Some b \<Longrightarrow> get_buf p s = Inr (b, s)"
  by (simp add: get_buf_def)

lemma upd_buf_app [km_simps]:
  "p \<noteq> NULL \<Longrightarrow> k_buf s p = Some b \<Longrightarrow> upd_buf p f s = Inr ((), s\<lparr>k_buf := (k_buf s)(p \<mapsto> f b)\<rparr>)"
  by (simp add: upd_buf_def km_simps)

lemma get_bl_app [km_simps]: "p \<noteq> NULL \<Longrightarrow> k_blist s p = Some l \<Longrightarrow> get_bl p s = Inr (l, s)"
  by (simp add: get_bl_def)

lemma upd_bl_app [km_simps]:
  "p \<noteq> NULL \<Longrightarrow> k_blist s p = Some l \<Longrightarrow> upd_bl p f s = Inr ((), s\<lparr>k_blist := (k_blist s)(p \<mapsto> f l)\<rparr>)"
  by (simp add: upd_bl_def km_simps)

lemma get_buf_null [km_simps]: "get_buf NULL s = Inl NullDeref"
  by (simp add: get_buf_def)

lemma spin_lock_app [km_simps]:
  "p \<noteq> NULL \<Longrightarrow> k_blist s p = Some l \<Longrightarrow> \<not> bl_lock l \<Longrightarrow>
   spin_lock p s = Inr ((), s\<lparr>k_blist := (k_blist s)(p \<mapsto> l\<lparr>bl_lock := True\<rparr>)\<rparr>)"
  by (simp add: spin_lock_def km_simps)

lemma spin_lock_deadlock [km_simps]:
  "p \<noteq> NULL \<Longrightarrow> k_blist s p = Some l \<Longrightarrow> bl_lock l \<Longrightarrow> spin_lock p s = Inl Deadlock"
  by (simp add: spin_lock_def km_simps)

lemma spin_unlock_app [km_simps]:
  "p \<noteq> NULL \<Longrightarrow> k_blist s p = Some l \<Longrightarrow>
   spin_unlock p s = Inr ((), s\<lparr>k_blist := (k_blist s)(p \<mapsto> l\<lparr>bl_lock := False\<rparr>)\<rparr>)"
  by (simp add: spin_unlock_def km_simps)

lemma buf_set_bit_app [km_simps]:
  "p \<noteq> NULL \<Longrightarrow> k_buf s p = Some b \<Longrightarrow>
   buf_set_bit n p s = Inr ((), s\<lparr>k_buf := (k_buf s)(p \<mapsto> b\<lparr>b_state := set_bit n (b_state b)\<rparr>)\<rparr>)"
  by (simp add: buf_set_bit_def km_simps)

lemma buf_clear_bit_app [km_simps]:
  "p \<noteq> NULL \<Longrightarrow> k_buf s p = Some b \<Longrightarrow>
   buf_clear_bit n p s = Inr ((), s\<lparr>k_buf := (k_buf s)(p \<mapsto> b\<lparr>b_state := unset_bit n (b_state b)\<rparr>)\<rparr>)"
  by (simp add: buf_clear_bit_def km_simps)

lemma log_add_bst_frame [simp]:
  "k_buf (log_add c s) = k_buf s" "k_blist (log_add c s) = k_blist s"
  by (simp_all add: log_add_def)

lemma bl_unlock_idle [simp]: "\<not> bl_lock l \<Longrightarrow> l\<lparr>bl_lock := False\<rparr> = l"
  by (cases l) simp

text \<open>When an operation on the list returns.\<close>

lemma get_bl_eq_Inr: "get_bl p s = Inr (l, t) \<longleftrightarrow> p \<noteq> NULL \<and> k_blist s p = Some l \<and> t = s"
  by (auto simp: get_bl_def split: option.splits)

lemma get_buf_eq_Inr: "get_buf p s = Inr (b, t) \<longleftrightarrow> p \<noteq> NULL \<and> k_buf s p = Some b \<and> t = s"
  by (auto simp: get_buf_def split: option.splits)

lemma upd_bl_eq_Inr: "upd_bl p f s = Inr (u, t) \<longleftrightarrow>
    p \<noteq> NULL \<and> (\<exists>l. k_blist s p = Some l \<and> t = s\<lparr>k_blist := (k_blist s)(p \<mapsto> f l)\<rparr>)"
  by (auto simp: upd_bl_def kbind_eq_Inr get_bl_eq_Inr kmod_app)

lemma upd_buf_eq_Inr: "upd_buf p f s = Inr (u, t) \<longleftrightarrow>
    p \<noteq> NULL \<and> (\<exists>b. k_buf s p = Some b \<and> t = s\<lparr>k_buf := (k_buf s)(p \<mapsto> f b)\<rparr>)"
  by (auto simp: upd_buf_def kbind_eq_Inr get_buf_eq_Inr kmod_app)

lemma spin_lock_eq_Inr: "spin_lock p s = Inr (u, t) \<longleftrightarrow>
    p \<noteq> NULL \<and> (\<exists>l. k_blist s p = Some l \<and> \<not> bl_lock l \<and>
      t = s\<lparr>k_blist := (k_blist s)(p \<mapsto> l\<lparr>bl_lock := True\<rparr>)\<rparr>)"
  by (auto simp: spin_lock_def kbind_eq_Inr get_bl_eq_Inr upd_bl_eq_Inr kfail_app split: if_splits)

lemma spin_unlock_eq_Inr: "spin_unlock p s = Inr (u, t) \<longleftrightarrow>
    p \<noteq> NULL \<and> (\<exists>l. k_blist s p = Some l \<and> t = s\<lparr>k_blist := (k_blist s)(p \<mapsto> l\<lparr>bl_lock := False\<rparr>)\<rparr>)"
  by (simp add: spin_unlock_def upd_bl_eq_Inr)

lemmas bl_inverts = km_inverts get_bl_eq_Inr get_buf_eq_Inr upd_bl_eq_Inr upd_buf_eq_Inr
  spin_lock_eq_Inr spin_unlock_eq_Inr

section \<open>The two states of a buffer\<close>

definition reserve :: "pcieuni_buffer \<Rightarrow> pcieuni_buffer" where
  "reserve b = b\<lparr>b_state := set_bit BUFFER_STATE_WAITING (unset_bit BUFFER_STATE_AVAILABLE (b_state b))\<rparr>"

definition release :: "pcieuni_buffer \<Rightarrow> pcieuni_buffer" where
  "release b = b\<lparr>b_state := set_bit BUFFER_STATE_AVAILABLE (unset_bit BUFFER_STATE_WAITING (b_state b))\<rparr>"

lemma flags_reserve [simp]: "\<not> available (reserve b)" "waiting (reserve b)"
  by (simp_all add: reserve_def bit_simps BUFFER_STATE_AVAILABLE_def BUFFER_STATE_WAITING_def)

lemma flags_release [simp]: "available (release b)" "\<not> waiting (release b)"
  by (simp_all add: release_def bit_simps BUFFER_STATE_AVAILABLE_def BUFFER_STATE_WAITING_def)

section \<open>The circle\<close>

definition ring_succ :: "ptr list \<Rightarrow> ptr \<Rightarrow> ptr" where
  "ring_succ xs p = (case list_next xs p of None \<Rightarrow> hd xs | Some q \<Rightarrow> q)"

lemma list_next_nth:
  "distinct xs \<Longrightarrow> i < length xs \<Longrightarrow>
   list_next xs (xs ! i) = (if Suc i < length xs then Some (xs ! Suc i) else None)"
proof (induction xs arbitrary: i rule: induct_list012)
  case (3 x y xs)
  show ?case
  proof (cases i)
    case (Suc j)
    with 3 have "(x # y # xs) ! i \<noteq> x" by (auto simp: nth_Cons' split: if_splits)
    with 3 Suc show ?thesis by simp
  qed simp
qed auto

lemma list_next_in_set: "list_next xs p = Some q \<Longrightarrow> q \<in> set xs"
  by (induction xs p rule: list_next.induct) (auto split: if_splits)

lemma ring_succ_nth:
  "distinct xs \<Longrightarrow> i < length xs \<Longrightarrow> ring_succ xs (xs ! i) = xs ! (Suc i mod length xs)"
proof (cases "Suc i < length xs")
  case False
  moreover assume "distinct xs" "i < length xs"
  ultimately have "Suc i = length xs" "list_next xs (xs ! i) = None" "xs \<noteq> []"
    by (auto simp: list_next_nth)
  then show ?thesis by (simp add: ring_succ_def hd_conv_nth)
qed (simp add: ring_succ_def list_next_nth)

lemma ring_succ_in_set: "xs \<noteq> [] \<Longrightarrow> ring_succ xs p \<in> set xs"
  by (auto simp: ring_succ_def list_next_in_set split: option.splits)

section \<open>Well-formed buffer lists\<close>

text \<open>
  The buffers of a list are distinct, allocated and in exactly one of the two states; unless
  the list is shut down, \<open>next\<close> is one of them, or null when there is none.
\<close>

definition bl_wf :: "ptr \<Rightarrow> bst \<Rightarrow> bool" where
  "bl_wf list s \<longleftrightarrow> list \<noteq> NULL \<and> (\<exists>l. k_blist s list = Some l \<and>
     distinct (bl_head l) \<and> NULL \<notin> set (bl_head l) \<and>
     (\<forall>p \<in> set (bl_head l). \<exists>b. k_buf s p = Some b \<and> (waiting b \<longleftrightarrow> \<not> available b)) \<and>
     (shutDownFlag l = 0 \<longrightarrow>
        (if bl_head l = [] then bl_next l = NULL else bl_next l \<in> set (bl_head l))))"

lemma bl_wfD:
  assumes "bl_wf list s" and "k_blist s list = Some l"
  shows "list \<noteq> NULL" "distinct (bl_head l)" "NULL \<notin> set (bl_head l)"
    "p \<in> set (bl_head l) \<Longrightarrow> \<exists>b. k_buf s p = Some b \<and> (waiting b \<longleftrightarrow> \<not> available b)"
    "shutDownFlag l = 0 \<Longrightarrow> bl_head l \<noteq> [] \<Longrightarrow> bl_next l \<in> set (bl_head l)"
    "shutDownFlag l = 0 \<Longrightarrow> bl_head l = [] \<Longrightarrow> bl_next l = NULL"
  using assms by (auto simp: bl_wf_def split: if_splits)

section \<open>What each operation does\<close>

lemma init_result:
  assumes "list \<noteq> NULL" "k_blist s list = Some l"
  shows "pcieuni_bufferList_init list dev s =
    Inr ((), s\<lparr>k_blist := (k_blist s)(list \<mapsto> l\<lparr>parentDev := dev, bl_lock := False, bl_head := [],
       bl_next := NULL, shutDownFlag := 0\<rparr>)\<rparr>)"
  using assms by (simp add: pcieuni_bufferList_init_def km_simps)

lemma append_result:
  assumes "list \<noteq> NULL" "k_blist s list = Some l" "\<not> bl_lock l" "p \<noteq> NULL" "k_buf s p = Some b"
  shows "pcieuni_bufferList_append list p s =
    Inr ((), s\<lparr>k_blist := (k_blist s)(list \<mapsto> l\<lparr>bl_head := bl_head l @ [p],
       bl_next := (if bl_head l = [] then p else bl_next l)\<rparr>)\<rparr>)"
  using assms by (cases "bl_head l") (simp_all add: pcieuni_bufferList_append_def km_simps)

lemma reserve_result:
  assumes "list \<noteq> NULL" "k_blist s list = Some l" "p \<noteq> NULL" "k_buf s p = Some b"
    "bl_next l \<in> set (bl_head l)"
  shows "get_free_reserve list p s =
    Inr (p, s\<lparr>k_buf := (k_buf s)(p \<mapsto> reserve b),
       k_blist := (k_blist s)(list \<mapsto> l\<lparr>bl_next := ring_succ (bl_head l) (bl_next l), bl_lock := False\<rparr>)\<rparr>)"
  using assms
  by (auto simp: get_free_reserve_def km_simps reserve_def ring_succ_def split: option.splits)

lemma get_free_available:
  assumes "list \<noteq> NULL" "k_blist s list = Some l" "\<not> bl_lock l" "shutDownFlag l = 0"
    "bl_next l \<noteq> NULL" "bl_next l \<in> set (bl_head l)" "k_buf s (bl_next l) = Some b" "available b"
  shows "pcieuni_bufferList_get_free wait list s =
    Inr (bl_next l, s\<lparr>k_buf := (k_buf s)(bl_next l \<mapsto> reserve b),
       k_blist := (k_blist s)(list \<mapsto> l\<lparr>bl_next := ring_succ (bl_head l) (bl_next l)\<rparr>)\<rparr>)"
  using assms
  by (simp add: pcieuni_bufferList_get_free_def km_simps get_free_loop.simps reserve_result)

lemma set_free_result:
  assumes "list \<noteq> NULL" "k_blist s list = Some l" "\<not> bl_lock l" "p \<noteq> NULL" "k_buf s p = Some b"
  shows "pcieuni_bufferList_set_free list p s =
    Inr ((), log_add (Sync (Wake_up list)) (s\<lparr>k_buf := (k_buf s)(p \<mapsto> release b)\<rparr>))"
  using assms by (simp add: pcieuni_bufferList_set_free_def km_simps release_def fun_upd_idem)

section \<open>The ring a client sees\<close>

text \<open>
  The abstract specification of the list: buffers in a circle, the position of the next one to
  hand out, the buffers that are out. \<open>ring_take\<close> has no result when the next buffer is out.
\<close>

record ring =
  r_bufs :: "ptr list"
  r_pos :: nat
  r_busy :: "ptr set"

definition ring_add :: "ptr \<Rightarrow> ring \<Rightarrow> ring" where
  "ring_add p r = r\<lparr>r_bufs := r_bufs r @ [p]\<rparr>"

definition ring_take :: "ring \<Rightarrow> (ptr \<times> ring) option" where
  "ring_take r =
     (if r_pos r < length (r_bufs r) \<and> r_bufs r ! r_pos r \<notin> r_busy r
      then Some (r_bufs r ! r_pos r,
                 r\<lparr>r_pos := Suc (r_pos r) mod length (r_bufs r),
                   r_busy := insert (r_bufs r ! r_pos r) (r_busy r)\<rparr>)
      else None)"

definition ring_give :: "ptr \<Rightarrow> ring \<Rightarrow> ring" where
  "ring_give p r = r\<lparr>r_busy := r_busy r - {p}\<rparr>"

fun takes :: "('s \<Rightarrow> (ptr \<times> 's) option) \<Rightarrow> nat \<Rightarrow> 's \<Rightarrow> (ptr list \<times> 's) option" where
  "takes f 0 s = Some ([], s)"
| "takes f (Suc k) s =
     (case f s of None \<Rightarrow> None
      | Some (p, s') \<Rightarrow> (case takes f k s' of None \<Rightarrow> None | Some (ps, t) \<Rightarrow> Some (p # ps, t)))"

lemma ring_takeD: "ring_take r = Some (p, r') \<Longrightarrow> p \<notin> r_busy r \<and> p \<in> r_busy r'"
  by (auto simp: ring_take_def split: if_splits)

text \<open>Taking from a ring in which the next \<open>k\<close> buffers are in.\<close>

lemma ring_takes:
  assumes "r_pos r < length (r_bufs r)" "distinct (r_bufs r)" "k \<le> length (r_bufs r)"
    "\<forall>j<k. r_bufs r ! ((r_pos r + j) mod length (r_bufs r)) \<notin> r_busy r"
  shows "\<exists>r'. takes ring_take k r =
      Some (map (\<lambda>j. r_bufs r ! ((r_pos r + j) mod length (r_bufs r))) [0..<k], r') \<and>
    r_bufs r' = r_bufs r \<and> r_busy r' = r_busy r \<union>
      (\<lambda>j. r_bufs r ! ((r_pos r + j) mod length (r_bufs r))) ` {..<k}"
  using assms
proof (induction k arbitrary: r)
  case (Suc k)
  let ?n = "length (r_bufs r)"
  let ?r = "r\<lparr>r_pos := Suc (r_pos r) mod ?n, r_busy := insert (r_bufs r ! r_pos r) (r_busy r)\<rparr>"
  have take: "ring_take r = Some (r_bufs r ! r_pos r, ?r)"
    using Suc.prems(1,4) by (auto simp: ring_take_def dest: spec [of _ 0])
  have pos: "Suc (r_pos r) mod ?n < ?n"
    using Suc.prems(1) by (intro mod_less_divisor) linarith
  have shift: "(Suc (r_pos r) mod ?n + j) mod ?n = (r_pos r + Suc j) mod ?n" for j
    by (simp add: mod_simps)
  have other: "r_bufs r ! ((r_pos r + Suc j) mod ?n) \<noteq> r_bufs r ! r_pos r" if "j < k" for j
  proof -
    have "(r_pos r + Suc j) mod ?n \<noteq> r_pos r"
    proof
      assume "(r_pos r + Suc j) mod ?n = r_pos r"
      then have "?n dvd (r_pos r + Suc j) - r_pos r"
        by (metis le_add1 mod_eq_dvd_iff_nat mod_mod_trivial)
      then show False using that Suc.prems(3) by (auto dest: dvd_imp_le)
    qed
    moreover have "(r_pos r + Suc j) mod ?n < ?n"
      using Suc.prems(1) by (intro mod_less_divisor) linarith
    ultimately show ?thesis using Suc.prems(1,2) by (simp only: nth_eq_iff_index_eq not_False_eq_True)
  qed
  have "\<forall>j<k. r_bufs ?r ! ((r_pos ?r + j) mod length (r_bufs ?r)) \<notin> r_busy ?r"
    using Suc.prems(4) other by (auto simp: shift)
  then obtain r' where r': "takes ring_take k ?r =
      Some (map (\<lambda>j. r_bufs r ! ((r_pos r + Suc j) mod ?n)) [0..<k], r')"
    "r_bufs r' = r_bufs r" "r_busy r' = insert (r_bufs r ! r_pos r) (r_busy r) \<union>
      (\<lambda>j. r_bufs r ! ((r_pos r + Suc j) mod ?n)) ` {..<k}"
    using Suc.IH [of ?r] Suc.prems(1-3) pos by (auto simp: shift)
  have "map (\<lambda>j. r_bufs r ! ((r_pos r + j) mod ?n)) [0..<Suc k] =
      r_bufs r ! r_pos r # map (\<lambda>j. r_bufs r ! ((r_pos r + Suc j) mod ?n)) [0..<k]"
    using Suc.prems(1) by (simp add: map_upt_Suc del: upt_Suc)
  then show ?case using take r' Suc.prems(1) by (auto simp: lessThan_Suc_eq_insert_0 image_image)
qed simp

text \<open>
  The interface between the buffer list and the drivers that use it. The client lemmas hold
  for every implementation of the laws.
\<close>

locale buffer_ring =
  fixes inv :: "'s \<Rightarrow> bool"
    and ring_of :: "'s \<Rightarrow> ring"
    and add :: "ptr \<Rightarrow> 's \<Rightarrow> 's option"
    and acquire :: "'s \<Rightarrow> (ptr \<times> 's) option"
    and give :: "ptr \<Rightarrow> 's \<Rightarrow> 's option"
    and fresh :: "ptr \<Rightarrow> 's \<Rightarrow> bool"
  assumes ring_wf: "inv s \<Longrightarrow> distinct (r_bufs (ring_of s)) \<and>
      r_busy (ring_of s) \<subseteq> set (r_bufs (ring_of s)) \<and>
      (r_bufs (ring_of s) \<noteq> [] \<longrightarrow> r_pos (ring_of s) < length (r_bufs (ring_of s)))"
    and take_some: "inv s \<Longrightarrow> ring_take (ring_of s) = Some (p, r) \<Longrightarrow>
      \<exists>s'. acquire s = Some (p, s') \<and> inv s' \<and> ring_of s' = r"
    and take_none: "inv s \<Longrightarrow> ring_take (ring_of s) = None \<Longrightarrow> acquire s = None"
    and give_ok: "inv s \<Longrightarrow> p \<in> set (r_bufs (ring_of s)) \<Longrightarrow>
      \<exists>s'. give p s = Some s' \<and> inv s' \<and> ring_of s' = ring_give p (ring_of s)"
    and add_ok: "inv s \<Longrightarrow> fresh p s \<Longrightarrow>
      \<exists>s'. add p s = Some s' \<and> inv s' \<and> ring_of s' = ring_add p (ring_of s)"
begin

lemma takes_simulate:
  "inv s \<Longrightarrow> takes ring_take k (ring_of s) = Some (ps, r) \<Longrightarrow>
   \<exists>s'. takes acquire k s = Some (ps, s') \<and> inv s' \<and> ring_of s' = r"
proof (induction k arbitrary: s ps r)
  case (Suc k)
  from Suc.prems(2) obtain p r1 ps1 where
    r1: "ring_take (ring_of s) = Some (p, r1)" "takes ring_take k r1 = Some (ps1, r)" "ps = p # ps1"
    by (auto split: option.splits)
  from take_some [OF Suc.prems(1) r1(1)] obtain s1 where
    s1: "acquire s = Some (p, s1)" "inv s1" "ring_of s1 = r1" by blast
  from Suc.IH [OF s1(2)] s1(3) r1(2) obtain s2 where
    "takes acquire k s1 = Some (ps1, s2)" "inv s2" "ring_of s2 = r" by blast
  with s1 r1 show ?case by auto
qed simp

text \<open>With all buffers in, they are handed out one after the other, in the order of the circle.\<close>

lemma round_robin:
  assumes "inv s" "r_busy (ring_of s) = {}" "k \<le> length (r_bufs (ring_of s))"
  shows "\<exists>s'. inv s' \<and> takes acquire k s =
    Some (map (\<lambda>j. r_bufs (ring_of s) ! ((r_pos (ring_of s) + j) mod length (r_bufs (ring_of s)))) [0..<k], s')"
proof (cases "k = 0")
  case False
  then have "r_bufs (ring_of s) \<noteq> []" using assms(3) by auto
  then obtain r' where "takes ring_take k (ring_of s) = Some (map (\<lambda>j. r_bufs (ring_of s) !
      ((r_pos (ring_of s) + j) mod length (r_bufs (ring_of s)))) [0..<k], r')"
    using ring_takes [of "ring_of s" k] ring_wf [OF assms(1)] assms(2,3) by auto
  from takes_simulate [OF assms(1) this] show ?thesis by blast
qed (use assms(1) in auto)

text \<open>A buffer that is out is not handed out again, and giving it back makes it available.\<close>

lemma take_not_busy: "inv s \<Longrightarrow> acquire s = Some (p, s') \<Longrightarrow> p \<notin> r_busy (ring_of s) \<and> p \<in> r_busy (ring_of s')"
proof -
  assume a: "inv s" "acquire s = Some (p, s')"
  then obtain q r where t: "ring_take (ring_of s) = Some (q, r)"
    using take_none by (cases "ring_take (ring_of s)") force+
  from take_some [OF a(1) t] a(2) have "q = p" "ring_of s' = r" by auto
  with ring_takeD [OF t] show ?thesis by simp
qed

lemma give_not_busy:
  "inv s \<Longrightarrow> p \<in> set (r_bufs (ring_of s)) \<Longrightarrow> \<exists>s'. give p s = Some s' \<and> inv s' \<and> p \<notin> r_busy (ring_of s')"
  using give_ok by (fastforce simp: ring_give_def)

end

section \<open>The buffer list is a ring\<close>

text \<open>Error pointers are the last 4095 addresses; no object lives there.\<close>

definition IS_ERR :: "ptr \<Rightarrow> bool" where
  "IS_ERR p \<longleftrightarrow> - 4095 \<le> p"

text \<open>A wait that gives up at once: the operation then never blocks.\<close>

definition no_wait :: waiter where
  "no_wait list buffer s = (0, s)"

definition index_of :: "'a list \<Rightarrow> 'a \<Rightarrow> nat" where
  "index_of xs x = length (takeWhile (\<lambda>y. y \<noteq> x) xs)"

definition list_ring :: "ptr \<Rightarrow> bst \<Rightarrow> ring" where
  "list_ring list s = (case k_blist s list of
     None \<Rightarrow> \<lparr>r_bufs = [], r_pos = 0, r_busy = {}\<rparr>
   | Some l \<Rightarrow> \<lparr>r_bufs = bl_head l, r_pos = index_of (bl_head l) (bl_next l),
       r_busy = set (filter (\<lambda>p. case k_buf s p of None \<Rightarrow> True | Some b \<Rightarrow> \<not> available b) (bl_head l))\<rparr>)"

text \<open>A list in use: well-formed, its lock free, not shut down.\<close>

definition live_list :: "ptr \<Rightarrow> pcieuni_buffer_list \<Rightarrow> bst \<Rightarrow> bool" where
  "live_list list l s \<longleftrightarrow> list \<noteq> NULL \<and> \<not> bl_lock l \<and> shutDownFlag l = 0 \<and> distinct (bl_head l) \<and>
     (\<forall>p \<in> set (bl_head l). p \<noteq> NULL \<and> \<not> IS_ERR p \<and>
        (\<exists>b. k_buf s p = Some b \<and> (waiting b \<longleftrightarrow> \<not> available b))) \<and>
     (if bl_head l = [] then bl_next l = NULL else bl_next l \<in> set (bl_head l))"

definition list_inv :: "ptr \<Rightarrow> bst \<Rightarrow> bool" where
  "list_inv list s \<longleftrightarrow> (\<exists>l. k_blist s list = Some l \<and> live_list list l s)"

definition list_fresh :: "ptr \<Rightarrow> ptr \<Rightarrow> bst \<Rightarrow> bool" where
  "list_fresh list p s \<longleftrightarrow> p \<noteq> NULL \<and> \<not> IS_ERR p \<and> p \<notin> set (r_bufs (list_ring list s)) \<and>
     (\<exists>b. k_buf s p = Some b \<and> available b \<and> \<not> waiting b)"

definition list_add :: "ptr \<Rightarrow> ptr \<Rightarrow> bst \<Rightarrow> bst option" where
  "list_add list p s =
     (case pcieuni_bufferList_append list p s of Inl _ \<Rightarrow> None | Inr (_, s') \<Rightarrow> Some s')"

definition list_take :: "ptr \<Rightarrow> bst \<Rightarrow> (ptr \<times> bst) option" where
  "list_take list s =
     (case pcieuni_bufferList_get_free no_wait list s of
        Inl _ \<Rightarrow> None | Inr (p, s') \<Rightarrow> if IS_ERR p then None else Some (p, s'))"

definition list_give :: "ptr \<Rightarrow> ptr \<Rightarrow> bst \<Rightarrow> bst option" where
  "list_give list p s =
     (case pcieuni_bufferList_set_free list p s of Inl _ \<Rightarrow> None | Inr (_, s') \<Rightarrow> Some s')"

lemma index_of_nth: "distinct xs \<Longrightarrow> i < length xs \<Longrightarrow> index_of xs (xs ! i) = i"
  unfolding index_of_def
proof (induction xs arbitrary: i)
  case (Cons x xs)
  then show ?case by (cases i) auto
qed simp

lemma index_of_less: "x \<in> set xs \<Longrightarrow> index_of xs x < length xs \<and> xs ! index_of xs x = x"
  unfolding index_of_def by (induction xs) auto

lemma index_of_snoc: "x \<in> set xs \<Longrightarrow> index_of (xs @ ys) x = index_of xs x"
  unfolding index_of_def by (induction xs) auto

lemma index_of_ring_succ:
  assumes "distinct xs" "p \<in> set xs"
  shows "index_of xs (ring_succ xs p) = Suc (index_of xs p) mod length xs"
proof -
  have i: "index_of xs p < length xs" "xs ! index_of xs p = p" using index_of_less [OF assms(2)] by auto
  then have "ring_succ xs p = xs ! (Suc (index_of xs p) mod length xs)"
    using ring_succ_nth [OF assms(1) i(1)] by simp
  moreover have "Suc (index_of xs p) mod length xs < length xs" using i(1) by (intro mod_less_divisor) linarith
  ultimately show ?thesis using index_of_nth [OF assms(1)] by simp
qed

lemma live_listD:
  assumes "live_list list l s"
  shows "list \<noteq> NULL" "\<not> bl_lock l" "shutDownFlag l = 0" "distinct (bl_head l)"
    "p \<in> set (bl_head l) \<Longrightarrow> p \<noteq> NULL" "p \<in> set (bl_head l) \<Longrightarrow> \<not> IS_ERR p"
    "p \<in> set (bl_head l) \<Longrightarrow> \<exists>b. k_buf s p = Some b \<and> (waiting b \<longleftrightarrow> \<not> available b)"
    "bl_head l \<noteq> [] \<Longrightarrow> bl_next l \<in> set (bl_head l)" "bl_head l = [] \<Longrightarrow> bl_next l = NULL"
  using assms by (auto simp: live_list_def split: if_splits)

lemma list_inv_wf: "list_inv list s \<Longrightarrow> bl_wf list s"
  by (fastforce simp: list_inv_def live_list_def bl_wf_def)

lemma ERR_PTR_is_err [simp]: "IS_ERR (ERR_PTR (- EBUSY))" "IS_ERR (ERR_PTR (- EINTR))"
  "IS_ERR (ERR_PTR (- ENOMEM))"
  by (simp_all add: IS_ERR_def ERR_PTR_def)

text \<open>Waiting for a buffer that is out, when the wait gives up.\<close>

lemma get_free_timeout:
  assumes "list \<noteq> NULL" "k_blist s list = Some l" "\<not> bl_lock l" "shutDownFlag l = 0"
    "bl_next l \<noteq> NULL" "k_buf s (bl_next l) = Some b" "\<not> available b"
    "wait list (bl_next l) s = (0, s')"
  shows "pcieuni_bufferList_get_free wait list s =
    Inr (ERR_PTR (- EBUSY), log_add (Sync (Wait_event_timeout list 0)) s')"
proof -
  let ?locked = "s\<lparr>k_blist := (k_blist s)(list \<mapsto> l\<lparr>bl_lock := True\<rparr>)\<rparr>"
  have "get_free_wait wait list (bl_next l) ?locked =
      Inr (GfReturn (ERR_PTR (- EBUSY)), log_add (Sync (Wait_event_timeout list 0)) s')"
    using assms by (simp add: get_free_wait_def km_simps fun_upd_idem)
  then have "get_free_loop wait list (bl_next l) ?locked =
      Some (Inr (GfReturn (ERR_PTR (- EBUSY)), log_add (Sync (Wait_event_timeout list 0)) s'))"
    using assms by (subst get_free_loop.simps) (simp add: km_simps)
  then show ?thesis using assms by (simp add: pcieuni_bufferList_get_free_def km_simps)
qed

lemma get_free_empty:
  assumes "list \<noteq> NULL" "k_blist s list = Some l" "\<not> bl_lock l" "shutDownFlag l = 0" "bl_next l = NULL"
  shows "pcieuni_bufferList_get_free wait list s = Inl NullDeref"
  using assms by (simp add: pcieuni_bufferList_get_free_def km_simps get_free_loop.simps)

lemma busy_iff:
  assumes "k_blist s list = Some l" "p \<in> set (bl_head l)" "k_buf s p = Some b"
  shows "p \<in> r_busy (list_ring list s) \<longleftrightarrow> \<not> available b"
  using assms by (simp add: list_ring_def)

lemma list_ring_wf:
  assumes "list_inv list s"
  shows "distinct (r_bufs (list_ring list s)) \<and>
    r_busy (list_ring list s) \<subseteq> set (r_bufs (list_ring list s)) \<and>
    (r_bufs (list_ring list s) \<noteq> [] \<longrightarrow> r_pos (list_ring list s) < length (r_bufs (list_ring list s)))"
  using assms by (auto simp: list_inv_def list_ring_def index_of_less dest: live_listD)

lemma list_take_some:
  assumes inv: "list_inv list s" and t: "ring_take (list_ring list s) = Some (p, r)"
  shows "\<exists>s'. list_take list s = Some (p, s') \<and> list_inv list s' \<and> list_ring list s' = r"
proof -
  from inv obtain l where l: "k_blist s list = Some l" and live: "live_list list l s"
    by (auto simp: list_inv_def)
  note D = live_listD [OF live]
  have ne: "bl_head l \<noteq> []" using t l by (auto simp: ring_take_def list_ring_def split: if_splits)
  note nx = D(8) [OF ne]
  have idx: "bl_head l ! index_of (bl_head l) (bl_next l) = bl_next l"
    using index_of_less [OF nx] by simp
  obtain b where b: "k_buf s (bl_next l) = Some b" using D(7) [OF nx] by blast
  have p: "p = bl_next l" and av: "available b"
    using t idx busy_iff [OF l nx b] l by (auto simp: ring_take_def list_ring_def split: if_splits)
  let ?l = "l\<lparr>bl_next := ring_succ (bl_head l) (bl_next l)\<rparr>"
  let ?s = "s\<lparr>k_buf := (k_buf s)(bl_next l \<mapsto> reserve b), k_blist := (k_blist s)(list \<mapsto> ?l)\<rparr>"
  have "list_take list s = Some (p, ?s)"
    using get_free_available [OF D(1) l D(2,3) D(5) [OF nx] nx b av, of no_wait] D(6) [OF nx] p
    by (simp add: list_take_def)
  moreover have "live_list list ?l ?s"
    using live ne ring_succ_in_set [OF ne, of "bl_next l"] by (auto simp: live_list_def)
  moreover have "list_ring list ?s = r"
    using t idx nx b av l D(4) by (auto simp: ring_take_def list_ring_def index_of_ring_succ split: if_splits)
  ultimately show ?thesis by (auto simp: list_inv_def)
qed

lemma list_take_none:
  assumes inv: "list_inv list s" and t: "ring_take (list_ring list s) = None"
  shows "list_take list s = None"
proof -
  from inv obtain l where l: "k_blist s list = Some l" and live: "live_list list l s"
    by (auto simp: list_inv_def)
  note D = live_listD [OF live]
  show ?thesis
  proof (cases "bl_head l = []")
    case True
    show ?thesis using get_free_empty [OF D(1) l D(2,3) D(9) [OF True]] by (simp add: list_take_def)
  next
    case False
    note nx = D(8) [OF False]
    obtain b where b: "k_buf s (bl_next l) = Some b" using D(7) [OF nx] by blast
    have "\<not> available b"
      using t index_of_less [OF nx] busy_iff [OF l nx b] l
      by (auto simp: ring_take_def list_ring_def split: if_splits)
    then show ?thesis
      using get_free_timeout [OF D(1) l D(2,3) D(5) [OF nx] b, of no_wait]
      by (simp add: list_take_def no_wait_def)
  qed
qed

lemma list_give_ok:
  assumes inv: "list_inv list s" and p: "p \<in> set (r_bufs (list_ring list s))"
  shows "\<exists>s'. list_give list p s = Some s' \<and> list_inv list s' \<and>
    list_ring list s' = ring_give p (list_ring list s)"
proof -
  from inv obtain l where l: "k_blist s list = Some l" and live: "live_list list l s"
    by (auto simp: list_inv_def)
  note D = live_listD [OF live]
  have ph: "p \<in> set (bl_head l)" using p l by (simp add: list_ring_def)
  obtain b where b: "k_buf s p = Some b" using D(7) [OF ph] by blast
  let ?s = "log_add (Sync (Wake_up list)) (s\<lparr>k_buf := (k_buf s)(p \<mapsto> release b)\<rparr>)"
  have "list_give list p s = Some ?s"
    using set_free_result [OF D(1) l D(2) D(5) [OF ph] b] by (simp add: list_give_def)
  moreover have "live_list list l ?s" using live by (auto simp: live_list_def)
  moreover have "list_ring list ?s = ring_give p (list_ring list s)"
    using l by (auto simp: list_ring_def ring_give_def)
  ultimately show ?thesis using l by (auto simp: list_inv_def)
qed

lemma list_add_ok:
  assumes inv: "list_inv list s" and p: "list_fresh list p s"
  shows "\<exists>s'. list_add list p s = Some s' \<and> list_inv list s' \<and>
    list_ring list s' = ring_add p (list_ring list s)"
proof -
  from inv obtain l where l: "k_blist s list = Some l" and live: "live_list list l s"
    by (auto simp: list_inv_def)
  note D = live_listD [OF live]
  from p obtain b where b: "p \<noteq> NULL" "\<not> IS_ERR p" "p \<notin> set (bl_head l)" "k_buf s p = Some b"
    "available b" "\<not> waiting b"
    using l by (auto simp: list_fresh_def list_ring_def)
  let ?l = "l\<lparr>bl_head := bl_head l @ [p], bl_next := (if bl_head l = [] then p else bl_next l)\<rparr>"
  let ?s = "s\<lparr>k_blist := (k_blist s)(list \<mapsto> ?l)\<rparr>"
  have "list_add list p s = Some ?s"
    using append_result [OF D(1) l D(2) b(1,4)] by (simp add: list_add_def)
  moreover have "live_list list ?l ?s" using live b by (auto simp: live_list_def split: if_splits)
  moreover have "index_of (bl_head ?l) (bl_next ?l) = index_of (bl_head l) (bl_next l)"
    using D(8) by (cases "bl_head l = []") (simp_all add: index_of_snoc, simp add: index_of_def)
  then have "list_ring list ?s = ring_add p (list_ring list s)"
    using l b by (auto simp: list_ring_def ring_add_def)
  ultimately show ?thesis by (auto simp: list_inv_def)
qed

interpretation bl: buffer_ring "list_inv list" "list_ring list" "list_add list" "list_take list"
    "list_give list" "list_fresh list" for list
  by unfold_locales
    (blast dest: list_ring_wf, rule list_take_some, assumption+, rule list_take_none, assumption+,
     rule list_give_ok, assumption+, rule list_add_ok, assumption+)

end
