(* ===== verification/Kernel_Resources.thy ===== *)
theory Kernel_Resources
  imports Kernel "HOL-Library.Multiset"
begin

text \<open>
  What the driver holds of the kernel's memory after a log of calls, as a multiset, and the
  contract of the allocator: an address it delivers is not null and not in use.
\<close>

section \<open>Resources held\<close>

text \<open>
  Objects of \<open>kzalloc\<close>, page blocks, reservations of single pages and DMA mappings. A failed
  allocation and a mapping for which \<open>dma_mapping_error\<close> holds leave nothing behind.
\<close>

datatype resource = RMem ptr | RPages ptr u32 | RReserved ptr | RDma ptr ptr u64

fun mem_held :: "kenv \<Rightarrow> mem_call \<Rightarrow> resource multiset \<Rightarrow> resource multiset" where
  "mem_held env (Kzalloc p) R = (if p = NULL then R else add_mset (RMem p) R)"
| "mem_held env (Kfree p) R = R - {#RMem p#}"
| "mem_held env (Get_free_pages n p) R = (if p = NULL then R else add_mset (RPages p n) R)"
| "mem_held env (Free_pages p n) R = R - {#RPages p n#}"
| "mem_held env (SetPageReserved p) R = add_mset (RReserved p) R"
| "mem_held env (ClearPageReserved p) R = R - {#RReserved p#}"
| "mem_held env (Dma_map_single d a n h) R =
     (if dma_mapping_error_ret env d h then R else add_mset (RDma d h n) R)"
| "mem_held env (Dma_unmap_single d h n) R = R - {#RDma d h n#}"

fun held :: "kenv \<Rightarrow> klog \<Rightarrow> resource multiset" where
  "held env [] = {#}"
| "held env (c # l) = (case c of Mem m \<Rightarrow> mem_held env m (held env l) | _ \<Rightarrow> held env l)"

section \<open>The allocator\<close>

text \<open>The contract is for logs of any length a machine can reach.\<close>

definition alloc_fresh :: "kenv \<Rightarrow> bool" where
  "alloc_fresh env \<longleftrightarrow> (\<forall>l. length l < 2 ^ 63 \<longrightarrow>
     kzalloc_ret env l \<noteq> NULL \<and> RMem (kzalloc_ret env l) \<notin># held env l)"

text \<open>An allocator with this contract: the least address that is not in use.\<close>

definition first_free :: "klog \<Rightarrow> ptr" where
  "first_free l = (case find (\<lambda>n. RMem (of_nat n) \<notin># held quiet_kernel l) [1..<length l + 2] of
     None \<Rightarrow> NULL | Some n \<Rightarrow> of_nat n)"

definition alloc_kernel :: kenv where
  "alloc_kernel = quiet_kernel\<lparr>kzalloc_ret := first_free\<rparr>"

lemma mem_held_size: "size (mem_held env c R) \<le> Suc (size R)"
  by (cases c) (auto simp: size_Diff_singleton_if)

lemma held_size: "size (held env l) \<le> length l"
proof (induction l)
  case (Cons c l)
  then show ?case by (cases c) (auto intro: order_trans [OF mem_held_size])
qed simp

lemma held_dma_cong:
  assumes "dma_mapping_error_ret env = dma_mapping_error_ret env'"
  shows "held env l = held env' l"
proof -
  have "mem_held env c R = mem_held env' c R" for c R using assms by (cases c) simp_all
  then show ?thesis by (induction l) (auto split: kcall.splits)
qed

lemma held_alloc_kernel: "held alloc_kernel l = held quiet_kernel l"
  by (rule held_dma_cong) (simp add: alloc_kernel_def)

lemma card_set_mset_size: "card (set_mset M) \<le> size M"
proof (induction M)
  case (add x M)
  then show ?case using card_insert_le_m1 by (simp add: card_insert_if)
qed simp

lemma find_SomeD: "find P xs = Some x \<Longrightarrow> x \<in> set xs \<and> P x"
  by (induction xs) (auto split: if_splits)

lemma first_free_exists:
  assumes "length l < 2 ^ 63"
  shows "\<exists>n \<in> set [1..<length l + 2]. RMem (of_nat n) \<notin># held quiet_kernel l"
proof (rule ccontr)
  let ?N = "{1..<length l + 2}"
  let ?f = "\<lambda>n. RMem (of_nat n)"
  assume "\<not> ?thesis"
  then have sub: "?f ` ?N \<subseteq> set_mset (held quiet_kernel l)" by (auto simp del: upt_Suc)
  have inj: "inj_on ?f ?N"
  proof (rule inj_onI)
    fix m n assume "m \<in> ?N" "n \<in> ?N" "?f m = ?f n"
    then have "unat (of_nat m :: ptr) = unat (of_nat n :: ptr)" "m < 2 ^ 64" "n < 2 ^ 64"
      using assms by auto
    then show "m = n" by (simp add: unat_of_nat_small)
  qed
  have "length l + 1 = card (?f ` ?N)" by (subst card_image [OF inj]) simp
  also have "\<dots> \<le> card (set_mset (held quiet_kernel l))" by (intro card_mono sub) simp
  also have "\<dots> \<le> size (held quiet_kernel l)" by (rule card_set_mset_size)
  also have "\<dots> \<le> length l" by (rule held_size)
  finally show False by simp
qed

lemma alloc_kernel_fresh: "alloc_fresh alloc_kernel"
  unfolding alloc_fresh_def held_alloc_kernel
proof (intro allI impI)
  fix l :: klog assume small: "length l < 2 ^ 63"
  from first_free_exists [OF this] obtain n where
    n: "find (\<lambda>n. RMem (of_nat n) \<notin># held quiet_kernel l) [1..<length l + 2] = Some n"
    by (metis find_None_iff not_None_eq)
  then have "n \<in> set [1..<length l + 2]" "RMem (of_nat n) \<notin># held quiet_kernel l"
    by (auto dest!: find_SomeD simp del: upt_Suc)
  moreover from this(1) small have "(of_nat n :: ptr) \<noteq> 0"
    using unat_of_nat_small [of n, where ?'a = 64] by auto
  ultimately show "kzalloc_ret alloc_kernel l \<noteq> NULL \<and> RMem (kzalloc_ret alloc_kernel l) \<notin># held quiet_kernel l"
    using n by (simp add: alloc_kernel_def first_free_def)
qed

end
