(* ===== verification/Buffer_Resources.thy ===== *)
theory Buffer_Resources
  imports Buffer_List Kernel_Resources
begin

text \<open>
  What \<open>pcieuni_buffer_create\<close> allocates and \<open>pcieuni_buffer_destroy\<close> gives back. The resources
  a log of kernel calls leaves allocated are a multiset; creating a buffer adds its structure,
  its pages, the reservation of each page and its DMA mapping, or nothing when it fails, and
  destroying it takes exactly these away.
\<close>

section \<open>The pages of a buffer\<close>

definition page_events :: "(u64 \<Rightarrow> kcall) \<Rightarrow> nat \<Rightarrow> nat \<Rightarrow> nat \<Rightarrow> klog" where
  "page_events ev P i m = rev (map (\<lambda>j. ev (of_nat (j * P))) [i..<m])"

lemma page_loop_run:
  assumes "0 < P" "m * P < 2 ^ 64" "i \<le> m"
  shows "page_loop ev (of_nat P) (of_nat (m * P)) (of_nat (i * P)) s =
    Some (s\<lparr>k_log := page_events ev P i m @ k_log s\<rparr>)"
  using assms(3)
proof (induction "m - i" arbitrary: i s)
  case 0
  then have "i = m" by simp
  then show ?case by (simp add: page_loop.simps page_events_def)
next
  case (Suc n)
  then have i: "i < m" by simp
  have "i * P < m * P" using i assms(1) by simp
  then have small: "i * P < 2 ^ 64" using assms(2) by (rule less_trans)
  have u: "unat (of_nat (i * P) :: u64) = i * P" "unat (of_nat (m * P) :: u64) = m * P"
    using small assms(2) by (simp_all add: unat_of_nat_small del: of_nat_mult)
  then have lt: "(of_nat (i * P) :: u64) < of_nat (m * P)"
    using i assms(1) by (simp add: word_less_nat_alt del: of_nat_mult)
  have step: "of_nat (i * P) + of_nat P = (of_nat (Suc i * P) :: u64)" by simp
  have "page_loop ev (of_nat P) (of_nat (m * P)) (of_nat (i * P)) s =
      page_loop ev (of_nat P) (of_nat (m * P)) (of_nat (Suc i * P)) (log_add (ev (of_nat (i * P))) s)"
    by (subst page_loop.simps) (simp only: lt step if_True)
  also have "\<dots> = Some (s\<lparr>k_log := page_events ev P i m @ k_log s\<rparr>)"
    using Suc.hyps(1) [of "Suc i" "log_add (ev (of_nat (i * P))) s"] Suc.hyps(2) i
    by (simp add: page_events_def upt_conv_Cons log_add_def del: of_nat_mult)
  finally show ?case .
qed

text \<open>
  A buffer whose size fits the \<open>int\<close> in which it is computed has \<open>2 ^ order\<close> pages and that many
  times the page size in bytes.
\<close>

definition size_fits :: "kenv \<Rightarrow> u32 \<Rightarrow> bool" where
  "size_fits env order \<longleftrightarrow> unat order + page_shift env < 31"

definition buffer_size :: "kenv \<Rightarrow> u32 \<Rightarrow> u64" where
  "buffer_size env order = scast (push_bit (unat (order + of_nat (page_shift env))) (1 :: c_int))"

lemma buffer_size_eq:
  assumes "size_fits env order"
  shows "buffer_size env order = of_nat (2 ^ unat order * 2 ^ page_shift env)"
proof -
  let ?k = "unat order + page_shift env"
  have k: "?k < 31" using assms by (simp add: size_fits_def)
  have "unat (of_nat (page_shift env) :: u32) = page_shift env"
    using k by (intro unat_of_nat_small) (simp add: less_trans [OF _ less_exp])
  then have "unat (order + of_nat (page_shift env)) = ?k"
    using k by (simp add: unat_word_ariths)
  moreover have "scast (push_bit ?k (1 :: c_int)) = (of_nat (2 ^ ?k) :: u64)"
  proof -
    have "(2 :: int) ^ ?k < 2 ^ 31" using k by (intro power_strict_increasing) auto
    moreover have "- (2 ^ 31) \<le> (2 :: int) ^ ?k" by (rule order_trans [of _ 0]) simp_all
    ultimately have "sint (word_of_int (2 ^ ?k) :: c_int) = 2 ^ ?k"
      by (subst sint_sbintrunc') (simp add: signed_take_bit_int_eq_self)
    then show ?thesis by (simp add: scast_eq push_bit_eq_mult)
  qed
  ultimately show ?thesis by (simp add: buffer_size_def power_add)
qed


lemma for_pages_run:
  assumes "size_fits env order"
  shows "for_pages env ev (buffer_size env order) s =
    Inr ((), s\<lparr>k_log := page_events ev (2 ^ page_shift env) 0 (2 ^ unat order) @ k_log s\<rparr>)"
proof -
  let ?P = "2 ^ page_shift env :: nat" and ?m = "2 ^ unat order :: nat"
  have "?m * ?P < 2 ^ 64"
    using assms power_strict_increasing [of "unat order + page_shift env" 64 "2 :: nat"]
    by (simp add: size_fits_def power_add)
  from page_loop_run [OF _ this, of 0 ev s] show ?thesis
    by (simp add: for_pages_def buffer_size_eq [OF assms] km_simps)
qed

section \<open>The resources of a buffer\<close>

definition page_res :: "kenv \<Rightarrow> ptr \<Rightarrow> u32 \<Rightarrow> resource multiset" where
  "page_res env a order =
     mset (map (\<lambda>j. RReserved (a + of_nat (j * 2 ^ page_shift env))) [0..<2 ^ unat order])"

definition buffer_res :: "kenv \<Rightarrow> ptr \<Rightarrow> ptr \<Rightarrow> pcieuni_buffer \<Rightarrow> resource multiset" where
  "buffer_res env pdev p b =
     {#RMem p, RPages (b_kaddr b) (b_order b), RDma pdev (b_dma_handle b) (b_size b)#} +
     page_res env (b_kaddr b) (b_order b)"

lemma held_page_events:
  "(\<And>x R. mem_held env (ev x) R = add_mset (f x) R) \<Longrightarrow>
   held env (page_events (\<lambda>x. Mem (ev x)) P 0 m @ l) =
     held env l + mset (map (\<lambda>j. f (of_nat (j * P))) [0..<m])"
  by (induction m) (simp_all add: page_events_def del: of_nat_mult)

lemma held_page_events_diff:
  "(\<And>x R. mem_held env (ev x) R = R - {#f x#}) \<Longrightarrow>
   held env (page_events (\<lambda>x. Mem (ev x)) P 0 m @ l) =
     held env l - mset (map (\<lambda>j. f (of_nat (j * P))) [0..<m])"
  by (induction m) (simp_all add: page_events_def del: of_nat_mult)

lemma held_reserved:
  "held env (page_events (\<lambda>x. Mem (SetPageReserved (a + x))) (2 ^ page_shift env) 0 (2 ^ unat n) @ l) =
     held env l + page_res env a n"
  by (simp add: held_page_events [where f = "\<lambda>x. RReserved (a + x)"] page_res_def del: of_nat_mult)

lemma held_unreserved:
  "held env (page_events (\<lambda>x. Mem (ClearPageReserved (a + x))) (2 ^ page_shift env) 0 (2 ^ unat n) @ l) =
     held env l - page_res env a n"
  by (simp add: held_page_events_diff [where f = "\<lambda>x. RReserved (a + x)"] page_res_def del: of_nat_mult)


section \<open>Destroying a buffer\<close>

text \<open>A buffer as \<open>create\<close> leaves it, but for its state bits.\<close>

definition buffer_made :: "kenv \<Rightarrow> pcieuni_buffer \<Rightarrow> bool" where
  "buffer_made env b \<longleftrightarrow> size_fits env (b_order b) \<and> b_size b = buffer_size env (b_order b)"

definition destroy_log :: "kenv \<Rightarrow> ptr \<Rightarrow> ptr \<Rightarrow> pcieuni_buffer \<Rightarrow> klog" where
  "destroy_log env pdev p b =
     Mem (Kfree p) #
     (if b_kaddr b = NULL then []
      else Mem (Free_pages (b_kaddr b) (b_order b)) #
        page_events (\<lambda>x. Mem (ClearPageReserved (b_kaddr b + x))) (2 ^ page_shift env) 0
          (2 ^ unat (b_order b)) @
        (if dma_mapping_error_ret env pdev (b_dma_handle b) then []
         else [Mem (Dma_unmap_single pdev (b_dma_handle b) (b_size b))]))"

lemma destroy_run:
  assumes "p \<noteq> NULL" "k_buf s p = Some b" "buffer_made env b" "dev \<noteq> NULL" "k_dev s dev = Some d"
  shows "pcieuni_buffer_destroy env dev p s =
    Inr ((), s\<lparr>k_buf := (k_buf s)(p := None),
               k_log := destroy_log env (pcieuni_pci_dev d) p b @ k_log s\<rparr>)"
  using assms
  by (simp add: pcieuni_buffer_destroy_def buffer_made_def destroy_log_def km_simps for_pages_run
      log_add_def)

lemma held_destroy_log:
  assumes "b_kaddr b \<noteq> NULL" "\<not> dma_mapping_error_ret env pdev (b_dma_handle b)"
  shows "held env (destroy_log env pdev p b @ l) = held env l - buffer_res env pdev p b"
proof -
  have "held env (destroy_log env pdev p b @ l) =
      held env l - {#RDma pdev (b_dma_handle b) (b_size b)#} - page_res env (b_kaddr b) (b_order b) -
      {#RPages (b_kaddr b) (b_order b)#} - {#RMem p#}"
    using assms by (simp add: destroy_log_def held_unreserved)
  then show ?thesis by (simp add: buffer_res_def multiset_eq_iff)
qed

section \<open>Creating a buffer\<close>

definition new_buffer :: "kenv \<Rightarrow> u64 \<Rightarrow> ptr \<Rightarrow> ptr \<Rightarrow> pcieuni_buffer" where
  "new_buffer env bufSize kaddr handle =
     \<lparr>b_size = buffer_size env (get_order_ret env bufSize), b_order = get_order_ret env bufSize,
      b_kaddr = kaddr, b_dma_handle = handle, b_dma_offset = 0, b_dma_size = 0,
      b_state = 2\<rparr>"

lemma new_buffer_state:
  "unset_bit BUFFER_STATE_WAITING (2 ^ BUFFER_STATE_AVAILABLE :: u64) = 2"
  by (simp add: BUFFER_STATE_WAITING_def BUFFER_STATE_AVAILABLE_def set_bit_eq_or unset_bit_eq_and_not)

lemma new_buffer_flags [simp]:
  "available (new_buffer env n a h)" "\<not> waiting (new_buffer env n a h)"
  by (simp_all add: new_buffer_def BUFFER_STATE_WAITING_def BUFFER_STATE_AVAILABLE_def
      bit_iff_odd_drop_bit drop_bit_eq_div)

text \<open>The addresses the kernel delivers during one \<open>create\<close>, and the log up to each of them.\<close>

definition create_pages :: "kenv \<Rightarrow> u64 \<Rightarrow> klog \<Rightarrow> ptr" where
  "create_pages env bufSize l =
     get_free_pages_ret env (Mem (Kzalloc (kzalloc_ret env l)) # l) (get_order_ret env bufSize)"

definition create_log :: "kenv \<Rightarrow> u64 \<Rightarrow> klog \<Rightarrow> klog" where
  "create_log env bufSize l =
     page_events (\<lambda>x. Mem (SetPageReserved (create_pages env bufSize l + x))) (2 ^ page_shift env) 0
       (2 ^ unat (get_order_ret env bufSize)) @
     [Mem (Get_free_pages (get_order_ret env bufSize) (create_pages env bufSize l)),
      Mem (Kzalloc (kzalloc_ret env l))] @ l"

definition create_handle :: "kenv \<Rightarrow> u64 \<Rightarrow> klog \<Rightarrow> ptr" where
  "create_handle env bufSize l =
     dma_map_single_ret env (create_log env bufSize l) (create_pages env bufSize l)
       (buffer_size env (get_order_ret env bufSize))"

definition create_mapped :: "kenv \<Rightarrow> u64 \<Rightarrow> ptr \<Rightarrow> klog \<Rightarrow> klog" where
  "create_mapped env bufSize pdev l =
     Mem (Dma_map_single pdev (create_pages env bufSize l)
            (buffer_size env (get_order_ret env bufSize)) (create_handle env bufSize l)) #
     create_log env bufSize l"

lemma buffer_size_power:
  "scast (2 ^ unat (order + of_nat (page_shift env)) :: c_int) = buffer_size env order"
  by (simp add: buffer_size_def push_bit_eq_mult)

lemma size_made: "size_fits env (get_order_ret env n) \<Longrightarrow> buffer_made env (new_buffer env n a h)"
  by (simp add: buffer_made_def new_buffer_def)

lemmas create_unfold = pcieuni_buffer_create_def km_simps kzalloc_def Let_def log_add_def
  create_pages_def [symmetric] create_handle_def [symmetric] create_log_def create_mapped_def
  zero_buffer_def buffer_size_power for_pages_run new_buffer_state

lemma create_run_ok:
  assumes "kzalloc_ret env (k_log s) \<noteq> NULL" "create_pages env bufSize (k_log s) \<noteq> NULL"
    "dev \<noteq> NULL" "k_dev s dev = Some d"
    "\<not> dma_mapping_error_ret env (pcieuni_pci_dev d) (create_handle env bufSize (k_log s))"
    "size_fits env (get_order_ret env bufSize)"
  shows "pcieuni_buffer_create env dev bufSize s =
    Inr (kzalloc_ret env (k_log s),
      s\<lparr>k_buf := (k_buf s)(kzalloc_ret env (k_log s) \<mapsto>
           new_buffer env bufSize (create_pages env bufSize (k_log s)) (create_handle env bufSize (k_log s))),
        k_log := create_mapped env bufSize (pcieuni_pci_dev d) (k_log s)\<rparr>)"
proof -
  note h = create_handle_def [of env bufSize "k_log s", unfolded create_log_def, simplified, symmetric]
  show ?thesis using assms by (simp add: create_unfold h new_buffer_def)
qed

lemma create_no_memory:
  assumes "kzalloc_ret env (k_log s) = NULL"
  shows "pcieuni_buffer_create env dev bufSize s =
    Inr (ERR_PTR (- ENOMEM), s\<lparr>k_log := Mem (Kzalloc NULL) # k_log s\<rparr>)"
  using assms by (simp add: create_unfold)

lemma create_no_pages:
  assumes "kzalloc_ret env (k_log s) \<noteq> NULL" "create_pages env bufSize (k_log s) = NULL"
    "dev \<noteq> NULL" "k_dev s dev = Some d"
    "size_fits env (get_order_ret env bufSize)"
  shows "pcieuni_buffer_create env dev bufSize s =
    Inr (ERR_PTR (- ENOMEM),
      s\<lparr>k_buf := (k_buf s)(kzalloc_ret env (k_log s) := None),
        k_log := Mem (Kfree (kzalloc_ret env (k_log s))) #
          Mem (Get_free_pages (get_order_ret env bufSize) NULL) #
          Mem (Kzalloc (kzalloc_ret env (k_log s))) # k_log s\<rparr>)"
  using assms
  by (simp add: create_unfold destroy_run buffer_made_def destroy_log_def)

lemma create_no_mapping:
  assumes "kzalloc_ret env (k_log s) \<noteq> NULL" "create_pages env bufSize (k_log s) \<noteq> NULL"
    "dev \<noteq> NULL" "k_dev s dev = Some d"
    "dma_mapping_error_ret env (pcieuni_pci_dev d) (create_handle env bufSize (k_log s))"
    "size_fits env (get_order_ret env bufSize)"
  shows "pcieuni_buffer_create env dev bufSize s =
    Inr (ERR_PTR (- ENOMEM),
      s\<lparr>k_buf := (k_buf s)(kzalloc_ret env (k_log s) := None),
        k_log := destroy_log env (pcieuni_pci_dev d) (kzalloc_ret env (k_log s))
            (new_buffer env bufSize (create_pages env bufSize (k_log s)) (create_handle env bufSize (k_log s))) @
          create_mapped env bufSize (pcieuni_pci_dev d) (k_log s)\<rparr>)"
proof -
  note h = create_handle_def [of env bufSize "k_log s", unfolded create_log_def, simplified, symmetric]
  show ?thesis using assms
    by (simp add: create_unfold h destroy_run buffer_made_def new_buffer_def destroy_log_def)
qed

lemma held_create_log:
  assumes "kzalloc_ret env l \<noteq> NULL" "create_pages env bufSize l \<noteq> NULL"
  shows "held env (create_log env bufSize l) = add_mset (RMem (kzalloc_ret env l))
    (add_mset (RPages (create_pages env bufSize l) (get_order_ret env bufSize)) (held env l)) +
    page_res env (create_pages env bufSize l) (get_order_ret env bufSize)"
  using assms by (simp add: create_log_def held_reserved add_mset_commute)

text \<open>
  \<open>get_order\<close> of the kernel delivers the smallest order whose block of pages holds the size.
  The driver relies on the block being large enough.
\<close>

definition get_order_spec :: "kenv \<Rightarrow> bool" where
  "get_order_spec env \<longleftrightarrow> (\<forall>n. size_fits env (get_order_ret env n) \<longrightarrow>
     unat n \<le> 2 ^ (unat (get_order_ret env n) + page_shift env))"

definition create_gets :: "kenv \<Rightarrow> u64 \<Rightarrow> pcieuni_dev \<Rightarrow> klog \<Rightarrow> bool" where
  "create_gets env bufSize d l \<longleftrightarrow> kzalloc_ret env l \<noteq> NULL \<and> create_pages env bufSize l \<noteq> NULL \<and>
     \<not> dma_mapping_error_ret env (pcieuni_pci_dev d) (create_handle env bufSize l)"

text \<open>
  C15. Creating a buffer succeeds exactly when the kernel delivers the structure, the pages and
  the mapping. The new buffer is available and not waiting, at least as large as requested, the
  resources held grow by exactly its structure, its pages, one reservation per page and its
  mapping, and no other buffer changes.
\<close>

theorem create_delivers_buffer:
  assumes "dev \<noteq> NULL" "k_dev s dev = Some d" "size_fits env (get_order_ret env bufSize)"
    "get_order_spec env" "create_gets env bufSize d (k_log s)"
  shows "\<exists>p b t. pcieuni_buffer_create env dev bufSize s = Inr (p, t) \<and> p \<noteq> NULL \<and>
    k_buf t = (k_buf s)(p \<mapsto> b) \<and> buffer_made env b \<and> available b \<and> \<not> waiting b \<and>
    unat bufSize \<le> unat (b_size b) \<and>
    held env (k_log t) = held env (k_log s) + buffer_res env (pcieuni_pci_dev d) p b"
proof -
  let ?n = "get_order_ret env bufSize"
  let ?b = "new_buffer env bufSize (create_pages env bufSize (k_log s)) (create_handle env bufSize (k_log s))"
  have k: "unat ?n + page_shift env < 64" using assms(3) by (simp add: size_fits_def)
  have "(2 :: nat) ^ (unat ?n + page_shift env) < 2 ^ 64" by (rule power_strict_increasing [OF k]) simp
  then have "unat (b_size ?b) = 2 ^ (unat ?n + page_shift env)"
    by (simp add: new_buffer_def buffer_size_eq [OF assms(3)] power_add [symmetric]
        unat_of_nat_small del: of_nat_mult of_nat_power)
  then have "unat bufSize \<le> unat (b_size ?b)"
    using assms(3,4) by (simp add: get_order_spec_def)
  moreover have "held env (create_mapped env bufSize (pcieuni_pci_dev d) (k_log s)) =
      held env (k_log s) + buffer_res env (pcieuni_pci_dev d) (kzalloc_ret env (k_log s)) ?b"
    using assms(5) by (simp add: create_gets_def create_mapped_def held_create_log buffer_res_def
        new_buffer_def)
  ultimately show ?thesis
    using create_run_ok [OF _ _ assms(1,2) _ assms(3)] assms(3,5) size_made [OF assms(3)]
    by (intro exI [of _ "kzalloc_ret env (k_log s)"] exI [of _ ?b] exI) (auto simp: create_gets_def)
qed


definition ex_order :: "u64 \<Rightarrow> u32" where
  "ex_order n = of_nat (length (takeWhile (\<lambda>k. 2 ^ (k + 12) < unat n) [0..<52]))"

definition ex_kernel :: kenv where
  "ex_kernel = quiet_kernel\<lparr>get_order_ret := ex_order\<rparr>"

definition ex_bst :: bst where
  "ex_bst = \<lparr>k_dev = (\<lambda>_. None)(0x100 := Some (zero_dev\<lparr>pcieuni_pci_dev := 0x80\<rparr>)),
     k_cdev = (\<lambda>_. None), k_priv = (\<lambda>_. 0), k_drvdata = (\<lambda>_. 0), k_log = [],
     k_buf = (\<lambda>_. None), k_blist = (\<lambda>_. None)\<rparr>"

lemma ex_order_spec: "get_order_spec ex_kernel"
  unfolding get_order_spec_def
proof (intro allI impI)
  fix n :: u64
  let ?k = "length (takeWhile (\<lambda>k. 2 ^ (k + 12) < unat n) [0..<52])"
  assume fits: "size_fits ex_kernel (get_order_ret ex_kernel n)"
  have "?k \<le> 52" using length_takeWhile_le [of _ "[0..<52]"] by (rule order_trans) simp
  then have u: "unat (ex_order n) = ?k" by (simp add: ex_order_def unat_of_nat_small)
  then have "?k < 52" using fits by (simp add: size_fits_def ex_kernel_def quiet_kernel_def)
  then have "\<not> 2 ^ ([0..<52] ! ?k + 12) < unat n" by (intro nth_length_takeWhile) simp
  then show "unat n \<le> 2 ^ (unat (get_order_ret ex_kernel n) + page_shift ex_kernel)"
    using \<open>?k < 52\<close> u by (simp add: ex_kernel_def quiet_kernel_def not_less)
qed

theorem create_delivers_buffer_witness:
  "\<exists>p b t. pcieuni_buffer_create ex_kernel 0x100 6000 ex_bst = Inr (p, t) \<and> p \<noteq> NULL \<and>
    k_buf t = (k_buf ex_bst)(p \<mapsto> b) \<and> buffer_made ex_kernel b \<and> available b \<and> \<not> waiting b \<and>
    unat (6000 :: u64) \<le> unat (b_size b) \<and>
    held ex_kernel (k_log t) = held ex_kernel (k_log ex_bst) +
      buffer_res ex_kernel (pcieuni_pci_dev (zero_dev\<lparr>pcieuni_pci_dev := 0x80\<rparr>)) p b"
proof -
  have o: "get_order_ret ex_kernel 6000 = 1"
    by (simp add: ex_kernel_def ex_order_def upt_conv_Cons)
  show ?thesis
    by (rule create_delivers_buffer)
      (simp_all add: o ex_bst_def ex_order_spec size_fits_def create_gets_def create_pages_def
        create_handle_def, simp_all add: ex_kernel_def quiet_kernel_def)
qed

text \<open>
  C17. When the structure, the pages or the mapping cannot be had, creating a buffer returns the
  error pointer of -ENOMEM, the resources held are those held before, and the buffers are those
  there were.
\<close>

theorem create_failure_releases_all:
  assumes "dev \<noteq> NULL" "k_dev s dev = Some d" "size_fits env (get_order_ret env bufSize)"
    "k_buf s (kzalloc_ret env (k_log s)) = None" "\<not> create_gets env bufSize d (k_log s)"
  shows "\<exists>t. pcieuni_buffer_create env dev bufSize s = Inr (ERR_PTR (- ENOMEM), t) \<and>
    k_buf t = k_buf s \<and> held env (k_log t) = held env (k_log s)"
proof -
  consider "kzalloc_ret env (k_log s) = NULL"
    | "kzalloc_ret env (k_log s) \<noteq> NULL" "create_pages env bufSize (k_log s) = NULL"
    | "kzalloc_ret env (k_log s) \<noteq> NULL" "create_pages env bufSize (k_log s) \<noteq> NULL"
      "dma_mapping_error_ret env (pcieuni_pci_dev d) (create_handle env bufSize (k_log s))"
    using assms(5) by (auto simp: create_gets_def)
  then show ?thesis
  proof cases
    case 1
    then show ?thesis by (simp add: create_no_memory)
  next
    case 2
    then show ?thesis using assms by (simp add: create_no_pages fun_upd_idem)
  next
    case 3
    then show ?thesis using assms
      by (simp add: create_no_mapping fun_upd_idem destroy_log_def new_buffer_def held_unreserved
          create_mapped_def held_create_log)
  qed
qed

theorem create_failure_releases_all_witness:
  "\<exists>t. pcieuni_buffer_create (ex_kernel\<lparr>dma_mapping_error_ret := \<lambda>_ _. True\<rparr>) 0x100 6000 ex_bst =
      Inr (ERR_PTR (- ENOMEM), t) \<and> k_buf t = k_buf ex_bst \<and>
    held (ex_kernel\<lparr>dma_mapping_error_ret := \<lambda>_ _. True\<rparr>) (k_log t) =
    held (ex_kernel\<lparr>dma_mapping_error_ret := \<lambda>_ _. True\<rparr>) (k_log ex_bst)"
proof -
  have o: "get_order_ret ex_kernel 6000 = 1"
    by (simp add: ex_kernel_def ex_order_def upt_conv_Cons)
  show ?thesis
    by (rule create_failure_releases_all [where d = "zero_dev\<lparr>pcieuni_pci_dev := 0x80\<rparr>"])
      (simp_all add: o ex_bst_def size_fits_def create_gets_def,
       simp_all add: ex_kernel_def quiet_kernel_def)
qed

text \<open>
  C18. Destroying a buffer \<open>create\<close> has made, whatever its state bits are now, releases exactly
  the resources \<open>create\<close> acquired for it and removes the buffer; a null pointer is ignored.
\<close>

theorem destroy_releases_buffer:
  assumes "p \<noteq> NULL" "k_buf s p = Some b" "buffer_made env b" "b_kaddr b \<noteq> NULL"
    "dev \<noteq> NULL" "k_dev s dev = Some d"
    "\<not> dma_mapping_error_ret env (pcieuni_pci_dev d) (b_dma_handle b)"
    "held env (k_log s) = R + buffer_res env (pcieuni_pci_dev d) p b"
  shows "\<exists>t. pcieuni_buffer_destroy env dev p s = Inr ((), t) \<and>
    k_buf t = (k_buf s)(p := None) \<and> held env (k_log t) = R \<and>
    pcieuni_buffer_destroy env dev NULL s = Inr ((), s)"
  using assms
  by (simp add: destroy_run held_destroy_log) (simp add: pcieuni_buffer_destroy_def km_simps)

definition ex_buffer :: pcieuni_buffer where
  "ex_buffer = \<lparr>b_size = 4096, b_order = 0, b_kaddr = 0x100000, b_dma_handle = 0x100000,
     b_dma_offset = 0, b_dma_size = 0, b_state = 4\<rparr>"

definition ex_created :: bst where
  "ex_created = ex_bst\<lparr>k_buf := (\<lambda>_. None)(0x1000 := Some ex_buffer),
     k_log := [Mem (Dma_map_single 0x80 0x100000 4096 0x100000), Mem (SetPageReserved 0x100000),
       Mem (Get_free_pages 0 0x100000), Mem (Kzalloc 0x1000)]\<rparr>"

theorem destroy_releases_buffer_witness:
  "\<exists>t. pcieuni_buffer_destroy quiet_kernel 0x100 0x1000 ex_created = Inr ((), t) \<and>
    k_buf t = (k_buf ex_created)(0x1000 := None) \<and> held quiet_kernel (k_log t) = {#} \<and>
    pcieuni_buffer_destroy quiet_kernel 0x100 NULL ex_created = Inr ((), ex_created)"
  by (rule destroy_releases_buffer [where b = ex_buffer and d = "zero_dev\<lparr>pcieuni_pci_dev := 0x80\<rparr>"])
    (simp_all add: ex_created_def ex_bst_def buffer_made_def size_fits_def buffer_size_def
      ex_buffer_def buffer_res_def page_res_def quiet_kernel_def)

end
