(* ===== verification/Buffer_Use.thy ===== *)
theory Buffer_Use
  imports Buffer_Resources
begin

text \<open>
  What the users of a buffer list can rely on, and where the list lets them down: the refinement
  of the ring by \<open>get_free\<close>, \<open>set_free\<close> and \<open>append\<close>, the order in which buffers are handed out,
  the error codes of \<open>get_free\<close>, and the spin lock \<open>get_free\<close> keeps when the list is shut down
  under it.
\<close>

section \<open>Example lists\<close>

definition ex_list :: "ptr list \<Rightarrow> ptr \<Rightarrow> pcieuni_buffer_list" where
  "ex_list ps nx = \<lparr>parentDev = 0x100, bl_head = ps, bl_next = nx, bl_lock = False, shutDownFlag = 0\<rparr>"

definition ex_avail :: pcieuni_buffer where
  "ex_avail = ex_buffer\<lparr>b_state := 2\<rparr>"

definition ex_two :: bst where
  "ex_two = ex_bst\<lparr>k_buf := (\<lambda>_. None)(0x1000 := Some ex_avail, 0x2000 := Some ex_avail),
     k_blist := (\<lambda>_. None)(0x500 := Some (ex_list [0x1000, 0x2000] 0x1000))\<rparr>"

definition ex_busy :: bst where
  "ex_busy = ex_bst\<lparr>k_buf := (\<lambda>_. None)(0x1000 := Some ex_buffer),
     k_blist := (\<lambda>_. None)(0x500 := Some (ex_list [0x1000] 0x1000))\<rparr>"

lemma ex_flags [simp]: "available ex_avail" "\<not> waiting ex_avail" "\<not> available ex_buffer" "waiting ex_buffer"
  by (simp_all add: ex_avail_def ex_buffer_def BUFFER_STATE_AVAILABLE_def BUFFER_STATE_WAITING_def
      bit_iff_odd_drop_bit drop_bit_eq_div)

lemma ex_two_inv: "list_inv 0x500 ex_two"
  by (auto simp: list_inv_def live_list_def ex_two_def ex_list_def IS_ERR_def)

lemma ex_busy_inv: "list_inv 0x500 ex_busy"
  by (auto simp: list_inv_def live_list_def ex_busy_def ex_list_def IS_ERR_def)

lemma ex_two_ring: "list_ring 0x500 ex_two = \<lparr>r_bufs = [0x1000, 0x2000], r_pos = 0, r_busy = {}\<rparr>"
  by (simp add: list_ring_def ex_two_def ex_list_def index_of_def)

section \<open>Refinement of the ring\<close>

lemma ring_take_get_free:
  assumes "list_inv list s" "ring_take (list_ring list s) = Some (p, r)"
  shows "\<exists>s'. pcieuni_bufferList_get_free wait list s = Inr (p, s') \<and> list_inv list s' \<and> list_ring list s' = r"
proof -
  from bl.take_some [OF assms] obtain s' where
    s': "list_take list s = Some (p, s')" "list_inv list s'" "list_ring list s' = r" by blast
  from assms(1) obtain l where l: "k_blist s list = Some l" and live: "live_list list l s"
    by (auto simp: list_inv_def)
  note D = live_listD [OF live]
  have ne: "bl_head l \<noteq> []" using assms(2) l by (auto simp: ring_take_def list_ring_def split: if_splits)
  obtain b where b: "k_buf s (bl_next l) = Some b" using D(7,8) ne by blast
  have "available b"
    using assms(2) index_of_less [OF D(8) [OF ne]] busy_iff [OF l D(8) [OF ne] b] l
    by (auto simp: ring_take_def list_ring_def split: if_splits)
  then have "pcieuni_bufferList_get_free wait list s = pcieuni_bufferList_get_free no_wait list s"
    using get_free_available [OF D(1) l D(2,3) D(5) [OF D(8) [OF ne]] D(8) [OF ne] b] by metis
  then show ?thesis using s' by (auto simp: list_take_def split: sum.splits if_splits)
qed

text \<open>
  C14: the buffer list implements the ring. On a list in use, \<open>get_free\<close> returns the buffer the
  ring hands out next, without waiting, and leaves the list as the ring is left; when that buffer
  is out and the wait times out, it returns -EBUSY and the ring is unchanged; \<open>set_free\<close> and
  \<open>append\<close> give back and add a buffer as the ring does. All of them keep the list well-formed and
  unlocked.
\<close>

theorem buffer_list_refines_ring:
  assumes "list_inv list s"
  shows "(\<forall>p r. ring_take (list_ring list s) = Some (p, r) \<longrightarrow>
      (\<exists>s'. pcieuni_bufferList_get_free wait list s = Inr (p, s') \<and> list_inv list s' \<and> list_ring list s' = r)) \<and>
    (ring_take (list_ring list s) = None \<and> r_bufs (list_ring list s) \<noteq> [] \<longrightarrow>
      (\<exists>s'. pcieuni_bufferList_get_free no_wait list s = Inr (ERR_PTR (- EBUSY), s') \<and>
        list_inv list s' \<and> list_ring list s' = list_ring list s)) \<and>
    (\<forall>p \<in> set (r_bufs (list_ring list s)). \<exists>s'. pcieuni_bufferList_set_free list p s = Inr ((), s') \<and>
        list_inv list s' \<and> list_ring list s' = ring_give p (list_ring list s)) \<and>
    (\<forall>p. list_fresh list p s \<longrightarrow> (\<exists>s'. pcieuni_bufferList_append list p s = Inr ((), s') \<and>
        list_inv list s' \<and> list_ring list s' = ring_add p (list_ring list s)))"
proof (intro conjI allI ballI impI)
  show "\<exists>s'. pcieuni_bufferList_get_free wait list s = Inr (p, s') \<and> list_inv list s' \<and> list_ring list s' = r"
    if "ring_take (list_ring list s) = Some (p, r)" for p r
    using ring_take_get_free [OF assms that] .
  show "\<exists>s'. pcieuni_bufferList_set_free list p s = Inr ((), s') \<and>
      list_inv list s' \<and> list_ring list s' = ring_give p (list_ring list s)"
    if "p \<in> set (r_bufs (list_ring list s))" for p
    using bl.give_ok [OF assms that] by (auto simp: list_give_def split: sum.splits)
  show "\<exists>s'. pcieuni_bufferList_append list p s = Inr ((), s') \<and>
      list_inv list s' \<and> list_ring list s' = ring_add p (list_ring list s)"
    if "list_fresh list p s" for p
    using bl.add_ok [OF assms that] by (auto simp: list_add_def split: sum.splits)
next
  assume none: "ring_take (list_ring list s) = None \<and> r_bufs (list_ring list s) \<noteq> []"
  from assms obtain l where l: "k_blist s list = Some l" and live: "live_list list l s"
    by (auto simp: list_inv_def)
  note D = live_listD [OF live]
  have nx: "bl_next l \<in> set (bl_head l)" using none l D(8) by (auto simp: list_ring_def)
  obtain b where b: "k_buf s (bl_next l) = Some b" using D(7) [OF nx] by blast
  have "\<not> available b"
    using none index_of_less [OF nx] busy_iff [OF l nx b] l
    by (auto simp: ring_take_def list_ring_def split: if_splits)
  then have "pcieuni_bufferList_get_free no_wait list s =
      Inr (ERR_PTR (- EBUSY), log_add (Sync (Wait_event_timeout list 0)) s)"
    using get_free_timeout [OF D(1) l D(2,3) D(5) [OF nx] b] by (simp add: no_wait_def)
  then show "\<exists>s'. pcieuni_bufferList_get_free no_wait list s = Inr (ERR_PTR (- EBUSY), s') \<and>
      list_inv list s' \<and> list_ring list s' = list_ring list s"
    using l live by (auto simp: list_inv_def live_list_def list_ring_def)
qed

theorem buffer_list_refines_ring_witness:
  "\<exists>s'. pcieuni_bufferList_get_free no_wait 0x500 ex_two = Inr (0x1000, s') \<and> list_inv 0x500 s' \<and>
    list_ring 0x500 s' = \<lparr>r_bufs = [0x1000, 0x2000], r_pos = 1, r_busy = {0x1000}\<rparr>"
  using buffer_list_refines_ring [OF ex_two_inv] by (simp add: ex_two_ring ring_take_def)

text \<open>
  C26: with no buffer out, \<open>k\<close> calls of \<open>get_free\<close> deliver \<open>k\<close> different buffers, in the order of
  the circle from the current position on and without waiting.
\<close>

theorem get_free_round_robin:
  assumes "list_inv list s" "r_busy (list_ring list s) = {}" "k \<le> length (r_bufs (list_ring list s))"
  shows "\<exists>s' ps. takes (list_take list) k s = Some (ps, s') \<and> list_inv list s' \<and> distinct ps \<and>
    ps = map (\<lambda>j. r_bufs (list_ring list s) ! ((r_pos (list_ring list s) + j) mod
           length (r_bufs (list_ring list s)))) [0..<k]"
proof -
  let ?r = "list_ring list s" and ?n = "length (r_bufs (list_ring list s))"
  have "(r_pos ?r + i) mod ?n \<noteq> (r_pos ?r + j) mod ?n" if "i < j" "j < k" for i j
  proof
    assume "(r_pos ?r + i) mod ?n = (r_pos ?r + j) mod ?n"
    then have "?n dvd (r_pos ?r + j) - (r_pos ?r + i)"
      using that by (metis add_le_cancel_left less_imp_le mod_eq_dvd_iff_nat)
    then show False using that assms(3) by (auto dest: dvd_imp_le)
  qed
  then have "inj_on (\<lambda>j. (r_pos ?r + j) mod ?n) {..<k}"
    by (auto simp: inj_on_def) (metis nat_neq_iff)
  moreover have "(r_pos ?r + j) mod ?n < ?n" if "j < k" for j
    using that assms(3) by (intro mod_less_divisor) linarith
  ultimately have "distinct (map (\<lambda>j. r_bufs ?r ! ((r_pos ?r + j) mod ?n)) [0..<k])"
    using bl.ring_wf [OF assms(1)]
    by (auto simp: distinct_map inj_on_def nth_eq_iff_index_eq atLeast0LessThan)
  then show ?thesis using bl.round_robin [OF assms] by blast
qed

theorem get_free_round_robin_witness:
  "\<exists>s'. takes (list_take 0x500) 2 ex_two = Some ([0x1000, 0x2000], s')"
proof -
  have "[0..<2] = [0, Suc 0]" by (simp add: upt_conv_Cons)
  then show ?thesis using get_free_round_robin [OF ex_two_inv, of 2] by (auto simp: ex_two_ring)
qed

section \<open>The errors of \<open>get_free\<close>\<close>

text \<open>
  One wait for a buffer that is out, and what follows it: \<open>code\<close> is what \<open>wait_event_timeout\<close>
  returns and \<open>u\<close> the memory at that moment.
\<close>

lemma get_free_after_wait:
  assumes "list \<noteq> NULL" "k_blist s list = Some l" "\<not> bl_lock l" "shutDownFlag l = 0"
    "bl_next l \<noteq> NULL" "k_buf s (bl_next l) = Some b" "\<not> available b"
    "wait list (bl_next l) s = (code, u)"
  shows "pcieuni_bufferList_get_free wait list s =
    (let t = log_add (Sync (Wait_event_timeout list code)) u in
     if code = 0 then Inr (ERR_PTR (- EBUSY), t)
     else if sint code < 0 then Inr (ERR_PTR (- EINTR), t)
     else kseq (spin_lock list) (kbind (get_bl list) (\<lambda>l'.
       if shutDownFlag l' \<noteq> 0 then kret (ERR_PTR (- EINTR))
       else kbind (kloop (get_free_loop wait list (bl_next l'))) (\<lambda>step.
         case step of GfReturn r \<Rightarrow> kret r | GfAgain buffer \<Rightarrow> get_free_reserve list buffer))) t)"
proof -
  let ?locked = "s\<lparr>k_blist := (k_blist s)(list \<mapsto> l\<lparr>bl_lock := True\<rparr>)\<rparr>"
  have unl: "spin_unlock list ?locked = Inr ((), s)"
    using assms(1-3) by (simp add: km_simps fun_upd_idem)
  have start: "pcieuni_bufferList_get_free wait list s =
      kbind (kloop (get_free_loop wait list (bl_next l))) (\<lambda>step.
         case step of GfReturn r \<Rightarrow> kret r | GfAgain buffer \<Rightarrow> get_free_reserve list buffer) ?locked"
    using assms(1-4) by (simp add: pcieuni_bufferList_get_free_def km_simps)
  show ?thesis
    unfolding start using assms(5-8)
    by (auto simp: get_free_loop.simps [of wait list "bl_next l"] get_free_wait_def kbind_def kseq_def
        kloop_def klift_def unl Let_def get_buf_app kret_def log_call_app split: sum.splits option.splits)
qed

text \<open>
  \<open>wait_event_timeout\<close> waits uninterruptibly: it returns 0 after a time-out and a positive number
  otherwise. With such waits the loop of \<open>get_free\<close> gives up for two reasons only.
\<close>

definition uninterruptible :: "waiter \<Rightarrow> bool" where
  "uninterruptible wait \<longleftrightarrow> (\<forall>list p u. 0 \<le> sint (fst (wait list p u)))"

definition shut_and_locked :: "ptr \<Rightarrow> bst \<Rightarrow> bool" where
  "shut_and_locked list t \<longleftrightarrow> (case k_blist t list of None \<Rightarrow> False | Some m \<Rightarrow> bl_lock m \<and> shutDownFlag m \<noteq> 0)"

lemma get_free_reserve_buffer: "get_free_reserve list p u = Inr (q, t) \<Longrightarrow> k_buf t q \<noteq> None"
  by (auto simp: get_free_reserve_def buf_clear_bit_def buf_set_bit_def bl_inverts split: if_splits option.splits)

lemma get_free_wait_gives_up:
  assumes "uninterruptible wait" "get_free_wait wait list p s = Inr (GfReturn r, t)"
  shows "r = ERR_PTR (- EBUSY) \<or> r = ERR_PTR (- EINTR) \<and> shut_and_locked list t"
proof -
  obtain code u s1 where u: "wait list p s1 = (code, u)" and
    rest: "(if code = 0 then kret (GfReturn (ERR_PTR (- EBUSY)))
      else if sint code < 0 then kret (GfReturn (ERR_PTR (- EINTR)))
      else kseq (spin_lock list) (kbind (get_bl list) (\<lambda>l.
        if shutDownFlag l \<noteq> 0 then kret (GfReturn (ERR_PTR (- EINTR))) else kret (GfAgain (bl_next l)))))
      (log_add (Sync (Wait_event_timeout list code)) u) = Inr (GfReturn r, t)"
    using assms(2) by (auto simp: get_free_wait_def kseq_eq_Inr kbind_eq_Inr klift_def log_call_app split: prod.splits)
  from assms(1) u have "\<not> sint code < 0" unfolding uninterruptible_def by (metis fst_conv not_less)
  with rest show ?thesis
    by (auto simp: kret_app kseq_eq_Inr kbind_eq_Inr spin_lock_eq_Inr get_bl_eq_Inr shut_and_locked_def split: if_splits)
qed

lemma get_free_loop_gives_up:
  assumes wait: "uninterruptible wait" and result: "get_free_loop wait list p s = Some (Inr (GfReturn r, t))"
  shows "r = ERR_PTR (- EBUSY) \<or> r = ERR_PTR (- EINTR) \<and> shut_and_locked list t"
proof -
  have "\<forall>r. y = Inr (GfReturn r, t) \<longrightarrow> r = ERR_PTR (- EBUSY) \<or> r = ERR_PTR (- EINTR) \<and> shut_and_locked list t"
    if "get_free_loop wait list p s = Some y" for y
  proof -
    have "wait = wait \<longrightarrow> list = list \<longrightarrow>
      (\<forall>r. y = Inr (GfReturn r, t) \<longrightarrow> r = ERR_PTR (- EBUSY) \<or> r = ERR_PTR (- EINTR) \<and> shut_and_locked list t)"
    proof (rule get_free_loop.raw_induct [where P = "\<lambda>w ls q u y. w = wait \<longrightarrow> ls = list \<longrightarrow>
        (\<forall>r. y = Inr (GfReturn r, t) \<longrightarrow> r = ERR_PTR (- EBUSY) \<or> r = ERR_PTR (- EINTR) \<and> shut_and_locked list t)", OF _ that],
        intro impI allI, goal_cases)
      case (1 f w ls q u y r)
      from 1(2-5) have "get_free_wait wait list q u = Inr (GfReturn r, t) \<or>
          (\<exists>q' v'. f wait list q' v' = Some (Inr (GfReturn r, t)))"
        by (auto simp: get_buf_def split: sum.splits option.splits if_splits gf_step.splits)
      with get_free_wait_gives_up [OF wait] 1(1) show ?case by blast
    qed
    then show ?thesis by simp
  qed
  with result show ?thesis by blast
qed

text \<open>
  C27: the errors of \<open>get_free\<close>. A list that is shut down answers -ENOMEM and is left as it was, its lock
  free. When the next buffer is out and the wait for it times out, the answer is -EBUSY: \<open>get_free\<close>
  leaves the buffers and the list as the others have left them during the wait, and the lock free
  if they have released it. As \<open>wait_event_timeout\<close> is not interrupted by signals, the answer -EINTR
  never means an interruption: unless it is the address of a buffer, the list has been shut down
  during the wait, and its lock is left held.
\<close>

theorem get_free_error_codes:
  assumes "list \<noteq> NULL" "k_blist s list = Some l" "\<not> bl_lock l"
  shows "(shutDownFlag l \<noteq> 0 \<longrightarrow>
      pcieuni_bufferList_get_free wait list s = Inr (ERR_PTR (- ENOMEM), s)) \<and>
    (\<forall>b u m. shutDownFlag l = 0 \<and> bl_next l \<noteq> NULL \<and> k_buf s (bl_next l) = Some b \<and> \<not> available b \<and>
        wait list (bl_next l) s = (0, u) \<and> k_blist u list = Some m \<and> \<not> bl_lock m \<longrightarrow>
      (\<exists>t. pcieuni_bufferList_get_free wait list s = Inr (ERR_PTR (- EBUSY), t) \<and>
        k_buf t = k_buf u \<and> k_blist t = k_blist u \<and> (\<exists>v. spin_lock list t = Inr ((), v)))) \<and>
    (\<forall>t. uninterruptible wait \<and> pcieuni_bufferList_get_free wait list s = Inr (ERR_PTR (- EINTR), t) \<and>
        k_buf t (ERR_PTR (- EINTR)) = None \<longrightarrow> shut_and_locked list t)"
proof (intro conjI allI impI, goal_cases)
  case 1
  then show ?case using assms by (simp add: pcieuni_bufferList_get_free_def km_simps fun_upd_idem)
next
  case (2 b u m)
  then have "pcieuni_bufferList_get_free wait list s = Inr (ERR_PTR (- EBUSY), log_add (Sync (Wait_event_timeout list 0)) u)"
    using get_free_after_wait [OF assms] by simp
  with 2 assms(1) show ?case
    by (intro exI [of _ "log_add (Sync (Wait_event_timeout list 0)) u"]) (simp add: km_simps)
next
  case (3 t)
  have differ: "ERR_PTR (- ENOMEM) \<noteq> ERR_PTR (- EINTR)" "ERR_PTR (- EBUSY) \<noteq> ERR_PTR (- EINTR)"
    by (simp_all add: ERR_PTR_def)
  from 3 assms differ(1) obtain step u where
    loop: "get_free_loop wait list (bl_next l) (s\<lparr>k_blist := (k_blist s)(list \<mapsto> l\<lparr>bl_lock := True\<rparr>)\<rparr>) = Some (Inr (step, u))"
    and out: "(case step of GfReturn r \<Rightarrow> kret r | GfAgain buffer \<Rightarrow> get_free_reserve list buffer) u = Inr (ERR_PTR (- EINTR), t)"
    by (auto simp: pcieuni_bufferList_get_free_def km_simps kbind_eq_Inr kloop_def split: if_splits option.splits)
  show ?case
  proof (cases step)
    case (GfReturn r)
    with out have "r = ERR_PTR (- EINTR)" "u = t" by (simp_all add: km_simps)
    with get_free_loop_gives_up [OF _ loop [unfolded GfReturn]] 3 differ(2) show ?thesis by auto
  next
    case (GfAgain p)
    with out have "k_buf t (ERR_PTR (- EINTR)) \<noteq> None" by (auto dest!: get_free_reserve_buffer)
    with 3 show ?thesis by simp
  qed
qed

theorem get_free_error_codes_witness:
  "\<exists>t. pcieuni_bufferList_get_free no_wait 0x500 ex_busy = Inr (ERR_PTR (- EBUSY), t) \<and>
     k_buf t = k_buf ex_busy \<and> k_blist t = k_blist ex_busy \<and> (\<exists>v. spin_lock 0x500 t = Inr ((), v))"
  using get_free_error_codes [of "0x500" ex_busy "ex_list [0x1000] 0x1000" no_wait]
  by (simp add: ex_busy_def ex_list_def no_wait_def)

text \<open>
  C34: when the buffer \<open>get_free\<close> waits for becomes free because the list is being shut down, it
  returns -EINTR with the spin lock of the list held: from then on every operation on the list
  waits for the lock for ever.
\<close>

theorem get_free_shutdown_keeps_lock:
  assumes "list \<noteq> NULL" "k_blist s list = Some l" "\<not> bl_lock l" "shutDownFlag l = 0"
    "bl_next l \<noteq> NULL" "k_buf s (bl_next l) = Some b" "\<not> available b"
    "wait list (bl_next l) s = (code, u)" "0 < sint code"
    "k_blist u list = Some m" "\<not> bl_lock m" "shutDownFlag m \<noteq> 0"
  shows "\<exists>t. pcieuni_bufferList_get_free wait list s = Inr (ERR_PTR (- EINTR), t) \<and>
    pcieuni_bufferList_get_free wait' list t = Inl Deadlock \<and>
    pcieuni_bufferList_set_free list p t = Inl Deadlock \<and>
    pcieuni_bufferList_append list p t = Inl Deadlock \<and>
    pcieuni_bufferList_clear env wait' list t = Inl Deadlock"
proof -
  let ?w = "log_add (Sync (Wait_event_timeout list code)) u"
  let ?t = "?w\<lparr>k_blist := (k_blist ?w)(list \<mapsto> m\<lparr>bl_lock := True\<rparr>)\<rparr>"
  have "code \<noteq> 0" "\<not> sint code < 0" using assms(9) by auto
  then have "pcieuni_bufferList_get_free wait list s = Inr (ERR_PTR (- EINTR), ?t)"
    using get_free_after_wait [where wait = wait, OF assms(1-8)] assms(1,10-12) by (simp add: km_simps)
  moreover have "spin_lock list ?t = Inl Deadlock" using assms(1) by (simp add: km_simps)
  ultimately show ?thesis
    by (simp add: pcieuni_bufferList_get_free_def pcieuni_bufferList_set_free_def
        pcieuni_bufferList_append_def pcieuni_bufferList_clear_def kseq_def kbind_def)
qed

definition shut_down_meanwhile :: waiter where
  "shut_down_meanwhile list buffer s =
     (100, s\<lparr>k_blist := (k_blist s)(list := map_option (shutDownFlag_update (\<lambda>_. 1)) (k_blist s list))\<rparr>)"

theorem get_free_shutdown_keeps_lock_witness:
  "\<exists>t. pcieuni_bufferList_get_free shut_down_meanwhile 0x500 ex_busy = Inr (ERR_PTR (- EINTR), t) \<and>
    pcieuni_bufferList_get_free no_wait 0x500 t = Inl Deadlock \<and>
    pcieuni_bufferList_set_free 0x500 0x1000 t = Inl Deadlock \<and>
    pcieuni_bufferList_append 0x500 0x1000 t = Inl Deadlock \<and>
    pcieuni_bufferList_clear quiet_kernel no_wait 0x500 t = Inl Deadlock"
  by (rule get_free_shutdown_keeps_lock [where l = "ex_list [0x1000] 0x1000" and b = ex_buffer
        and m = "ex_list [0x1000] 0x1000\<lparr>shutDownFlag := 1\<rparr>" and code = 100
        and u = "snd (shut_down_meanwhile 0x500 0x1000 ex_busy)"])
    (simp_all add: ex_busy_def ex_list_def shut_down_meanwhile_def)

text \<open>
  On a list that is initialised but has no buffer, \<open>get_free\<close> follows the null pointer
  \<open>next\<close> instead of returning the documented -ENOMEM.
\<close>

theorem get_free_on_empty_list:
  assumes "list \<noteq> NULL" "k_blist s list = Some l"
  shows "\<exists>t. pcieuni_bufferList_init list dev s = Inr ((), t) \<and>
    pcieuni_bufferList_get_free wait list t = Inl NullDeref"
  using assms by (simp add: init_result get_free_empty)

theorem get_free_on_empty_list_witness:
  "\<exists>t. pcieuni_bufferList_init 0x500 0x100 ex_two = Inr ((), t) \<and>
    pcieuni_bufferList_get_free no_wait 0x500 t = Inl NullDeref"
  by (rule get_free_on_empty_list [where l = "ex_list [0x1000, 0x2000] 0x1000"]) (simp_all add: ex_two_def)

end
