(* ===== verification/Buffer_Shutdown.thy ===== *)
theory Buffer_Shutdown
  imports Buffer_Use
begin

text \<open>
  \<open>pcieuni_bufferList_clear\<close>: on a list whose buffers are all in, it returns, destroys every
  buffer and leaves the list shut down; while a buffer of the list stays out, it never returns.
\<close>

section \<open>Clearing a list whose buffers are in\<close>

definition clear_log :: "kenv \<Rightarrow> ptr \<Rightarrow> (ptr \<Rightarrow> pcieuni_buffer option) \<Rightarrow> ptr list \<Rightarrow> klog" where
  "clear_log env pdev bufs ps = concat (map (\<lambda>p. destroy_log env pdev p (the (bufs p))) (rev ps))"

lemma clear_wait_available:
  "p \<noteq> NULL \<Longrightarrow> k_buf s p = Some b \<Longrightarrow> available b \<Longrightarrow> clear_wait wait list p code s = Some (Inr (code, s))"
  by (simp add: clear_wait.simps km_simps)

lemma sint_one [simp]: "0 < sint (1 :: c_int)"
  by (simp add: sint_uint)

lemma clear_entry_available:
  assumes "list \<noteq> NULL" "k_blist s list = Some l" "parentDev l \<noteq> NULL" "k_dev s (parentDev l) = Some d"
    "p \<noteq> NULL" "k_buf s p = Some b" "available b" "buffer_made env b" "p \<in> set (bl_head l)"
  shows "clear_entry env wait list p s = Inr (list_next (bl_head l) p,
    s\<lparr>k_buf := (k_buf s)(p := None), k_blist := (k_blist s)(list \<mapsto> l\<lparr>bl_head := remove1 p (bl_head l)\<rparr>),
      k_log := destroy_log env (pcieuni_pci_dev d) p b @ k_log s\<rparr>)"
  using assms by (simp add: clear_entry_def clear_unlink_def km_simps clear_wait_available destroy_run)

lemma list_next_first: "list_next (p # ps) p = (case ps of [] \<Rightarrow> None | q # _ \<Rightarrow> Some q)"
  by (cases ps) simp_all

definition all_in :: "kenv \<Rightarrow> ptr list \<Rightarrow> bst \<Rightarrow> bool" where
  "all_in env ps s \<longleftrightarrow> distinct ps \<and>
     (\<forall>p \<in> set ps. p \<noteq> NULL \<and> (\<exists>b. k_buf s p = Some b \<and> available b \<and> buffer_made env b))"

text \<open>The buffers \<open>qs\<close> at the front of the list are in: they are unlinked and destroyed, one by one.\<close>

definition clear_front :: "kenv \<Rightarrow> ptr \<Rightarrow> pcieuni_dev \<Rightarrow> pcieuni_buffer_list \<Rightarrow> ptr list \<Rightarrow> ptr list \<Rightarrow> bst \<Rightarrow> bst" where
  "clear_front env list d l qs ps s = s\<lparr>k_buf := k_buf s |` (- set qs),
      k_blist := (k_blist s)(list \<mapsto> l\<lparr>bl_head := ps\<rparr>),
      k_log := clear_log env (pcieuni_pci_dev d) (k_buf s) qs @ k_log s\<rparr>"

abbreviation first_entry :: "ptr list \<Rightarrow> ptr option" where
  "first_entry ps \<equiv> (case ps of [] \<Rightarrow> None | p # _ \<Rightarrow> Some p)"

lemma clear_loop_front:
  assumes "list \<noteq> NULL" "dev \<noteq> NULL" "k_dev s dev = Some d" "k_blist s list = Some l"
    "parentDev l = dev" "bl_head l = qs @ ps" "all_in env qs s"
  shows "clear_loop env wait list (first_entry (qs @ ps)) s = clear_loop env wait list (first_entry ps) (clear_front env list d l qs ps s)"
  using assms(3-)
proof (induction qs arbitrary: s l)
  case Nil
  then have "l\<lparr>bl_head := ps\<rparr> = l" by (cases l) simp
  with Nil show ?case by (simp add: clear_front_def clear_log_def fun_upd_idem restrict_map_def)
next
  case (Cons p qs)
  obtain b where b: "p \<noteq> NULL" "k_buf s p = Some b" "available b" "buffer_made env b"
    using Cons.prems(5) by (auto simp: all_in_def)
  let ?l = "l\<lparr>bl_head := qs @ ps\<rparr>"
  let ?s = "s\<lparr>k_buf := (k_buf s)(p := None), k_blist := (k_blist s)(list \<mapsto> ?l),
      k_log := destroy_log env (pcieuni_pci_dev d) p b @ k_log s\<rparr>"
  have "all_in env qs ?s" using Cons.prems(5) by (auto simp: all_in_def)
  then have rest: "clear_loop env wait list (first_entry (qs @ ps)) ?s =
      clear_loop env wait list (first_entry ps) (clear_front env list d ?l qs ps ?s)"
    using Cons.prems by (intro Cons.IH) auto
  have entry: "clear_entry env wait list p s = Inr (first_entry (qs @ ps), ?s)"
    using clear_entry_available [OF assms(1) Cons.prems(2) _ _ b, of d wait] Cons.prems assms(2)
    by (simp add: list_next_first)
  have logs: "clear_log env (pcieuni_pci_dev d) (k_buf ?s) qs @ destroy_log env (pcieuni_pci_dev d) p b =
      clear_log env (pcieuni_pci_dev d) (k_buf s) (p # qs)"
    using Cons.prems(5) b(2) by (auto simp: clear_log_def all_in_def intro!: arg_cong [where f = concat])
  have bufs: "k_buf ?s |` (- set qs) = k_buf s |` (- set (p # qs))" by (auto simp: restrict_map_def)
  have front: "clear_front env list d ?l qs ps ?s = clear_front env list d l (p # qs) ps s"
    unfolding clear_front_def bufs logs [symmetric] by (simp add: restrict_map_def)
  have "clear_loop env wait list (Some p) s = clear_loop env wait list (first_entry (qs @ ps)) ?s"
    by (subst clear_loop.simps) (simp add: entry)
  with rest show ?case by (simp add: front)
qed

lemma clear_loop_run:
  assumes "list \<noteq> NULL" "dev \<noteq> NULL" "k_dev s dev = Some d" "k_blist s list = Some l"
    "parentDev l = dev" "bl_head l = ps" "all_in env ps s"
  shows "clear_loop env wait list (first_entry ps) s =
    Some (Inr ((), s\<lparr>k_buf := k_buf s |` (- set ps),
      k_blist := (k_blist s)(list \<mapsto> l\<lparr>bl_head := []\<rparr>),
      k_log := clear_log env (pcieuni_pci_dev d) (k_buf s) ps @ k_log s\<rparr>))"
  using clear_loop_front [of list dev s d l ps "[]" env wait] assms by (simp add: clear_front_def clear_loop.simps)

text \<open>The resources of all buffers of a list.\<close>

definition list_res :: "kenv \<Rightarrow> ptr \<Rightarrow> (ptr \<Rightarrow> pcieuni_buffer option) \<Rightarrow> ptr list \<Rightarrow> resource multiset" where
  "list_res env pdev bufs ps = sum_list (map (\<lambda>p. buffer_res env pdev p (the (bufs p))) ps)"

lemma held_clear_log:
  assumes "\<forall>p \<in> set ps. b_kaddr (the (bufs p)) \<noteq> NULL \<and>
      \<not> dma_mapping_error_ret env pdev (b_dma_handle (the (bufs p)))"
  shows "held env (clear_log env pdev bufs ps @ l) = held env l - list_res env pdev bufs ps"
  using assms
proof (induction ps arbitrary: l)
  case (Cons p ps)
  have "clear_log env pdev bufs (p # ps) @ l =
      clear_log env pdev bufs ps @ (destroy_log env pdev p (the (bufs p)) @ l)"
    by (simp add: clear_log_def)
  with Cons show ?case by (simp add: held_destroy_log list_res_def)
qed (simp add: clear_log_def list_res_def)

definition mapped_in :: "kenv \<Rightarrow> ptr \<Rightarrow> ptr list \<Rightarrow> bst \<Rightarrow> bool" where
  "mapped_in env pdev ps s \<longleftrightarrow> (\<forall>p \<in> set ps. b_kaddr (the (k_buf s p)) \<noteq> NULL \<and>
      \<not> dma_mapping_error_ret env pdev (b_dma_handle (the (k_buf s p))))"

text \<open>
  C19: clearing an unlocked list whose buffers are all available returns, without waiting; every
  buffer is unlinked, destroyed and its structure, pages, reservations and mapping released, and
  nothing else; the list is left empty, unlocked and shut down, so that \<open>get_free\<close> answers
  -ENOMEM from then on.
\<close>

theorem clear_destroys_all_buffers:
  assumes "list \<noteq> NULL" "k_blist s list = Some l" "\<not> bl_lock l" "parentDev l \<noteq> NULL"
    "k_dev s (parentDev l) = Some d" "all_in env (bl_head l) s"
    "mapped_in env (pcieuni_pci_dev d) (bl_head l) s"
    "held env (k_log s) = R + list_res env (pcieuni_pci_dev d) (k_buf s) (bl_head l)"
  shows "\<exists>t. pcieuni_bufferList_clear env wait list s = Inr ((), t) \<and>
    k_buf t = k_buf s |` (- set (bl_head l)) \<and>
    k_blist t = (k_blist s)(list \<mapsto> l\<lparr>shutDownFlag := 1, bl_head := []\<rparr>) \<and>
    held env (k_log t) = R \<and>
    pcieuni_bufferList_get_free wait' list t = Inr (ERR_PTR (- ENOMEM), t)"
proof -
  let ?l = "l\<lparr>bl_lock := True, shutDownFlag := 1\<rparr>"
  let ?s = "s\<lparr>k_blist := (k_blist s)(list \<mapsto> ?l)\<rparr>"
  let ?t = "s\<lparr>k_buf := k_buf s |` (- set (bl_head l)),
      k_log := clear_log env (pcieuni_pci_dev d) (k_buf s) (bl_head l) @ k_log s,
      k_blist := (k_blist s)(list \<mapsto> l\<lparr>shutDownFlag := 1, bl_head := []\<rparr>)\<rparr>"
  have "all_in env (bl_head l) ?s" using assms(6) by (simp add: all_in_def)
  then have "clear_loop env wait list (case bl_head l of [] \<Rightarrow> None | p # _ \<Rightarrow> Some p) ?s =
      Some (Inr ((), ?s\<lparr>k_buf := k_buf ?s |` (- set (bl_head l)),
        k_blist := (k_blist ?s)(list \<mapsto> ?l\<lparr>bl_head := []\<rparr>),
        k_log := clear_log env (pcieuni_pci_dev d) (k_buf ?s) (bl_head l) @ k_log ?s\<rparr>))"
    using assms by (intro clear_loop_run) auto
  moreover have "l\<lparr>shutDownFlag := 1, bl_head := [], bl_lock := False\<rparr> = l\<lparr>shutDownFlag := 1, bl_head := []\<rparr>"
    using assms(3) by (cases l) simp
  ultimately have "pcieuni_bufferList_clear env wait list s = Inr ((), ?t)"
    using assms(1-3) by (simp add: pcieuni_bufferList_clear_def km_simps)
  moreover have "pcieuni_bufferList_get_free wait' list ?t = Inr (ERR_PTR (- ENOMEM), ?t)"
    using assms(1,3) by (simp add: pcieuni_bufferList_get_free_def km_simps)
  moreover have "held env (k_log ?t) = R"
    using assms(7,8) by (simp add: held_clear_log mapped_in_def)
  ultimately show ?thesis by (intro exI [of _ ?t]) simp
qed

definition ex_one :: bst where
  "ex_one = ex_created\<lparr>k_buf := (\<lambda>_. None)(0x1000 := Some ex_avail),
     k_blist := (\<lambda>_. None)(0x500 := Some (ex_list [0x1000] 0x1000))\<rparr>"

theorem clear_destroys_all_buffers_witness:
  "\<exists>t. pcieuni_bufferList_clear quiet_kernel no_wait 0x500 ex_one = Inr ((), t) \<and>
    k_buf t = k_buf ex_one |` (- set (bl_head (ex_list [0x1000] 0x1000))) \<and>
    k_blist t = (k_blist ex_one)(0x500 \<mapsto> ex_list [0x1000] 0x1000\<lparr>shutDownFlag := 1, bl_head := []\<rparr>) \<and>
    held quiet_kernel (k_log t) = {#} \<and>
    pcieuni_bufferList_get_free no_wait 0x500 t = Inr (ERR_PTR (- ENOMEM), t)"
  by (rule clear_destroys_all_buffers [where d = "zero_dev\<lparr>pcieuni_pci_dev := 0x80\<rparr>"])
    (simp_all add: ex_one_def all_in_def mapped_in_def ex_list_def list_res_def,
     simp_all add: ex_created_def ex_bst_def buffer_made_def size_fits_def buffer_size_def
      ex_avail_def ex_buffer_def buffer_res_def page_res_def quiet_kernel_def)

section \<open>Clearing a list with a buffer out\<close>

text \<open>The lock of the list is free and the buffer is out.\<close>

definition stays_out :: "ptr \<Rightarrow> ptr \<Rightarrow> bst \<Rightarrow> bool" where
  "stays_out list p u \<longleftrightarrow>
     (case k_blist u list of None \<Rightarrow> False | Some m \<Rightarrow> \<not> bl_lock m) \<and>
     (case k_buf u p of None \<Rightarrow> False | Some b \<Rightarrow> \<not> available b)"

lemma clear_wait_stuck:
  assumes wait: "\<And>u. stays_out list p u \<Longrightarrow> stays_out list p (snd (wait list p u))" and "list \<noteq> NULL" "p \<noteq> NULL"
    "k_blist s list \<noteq> None" "k_buf s p = Some b" "\<not> available b"
  shows "clear_wait wait list p code s = None"
proof (rule ccontr)
  let ?stuck = "\<lambda>w ls q u. w = wait \<and> ls = list \<and> q = p \<and> k_blist u list \<noteq> None \<and> (\<exists>b. k_buf u p = Some b \<and> \<not> available b)"
  assume "clear_wait wait list p code s \<noteq> None"
  then obtain r where r: "clear_wait wait list p code s = Some r" by blast
  have "\<not> ?stuck wait list p s"
  proof (rule clear_wait.raw_induct [where P = "\<lambda>w ls q c u r. \<not> ?stuck w ls q u", OF _ r], rule notI, goal_cases)
    case (1 f w ls q c u r)
    then obtain l b where l: "k_blist u list = Some l" and b: "k_buf u p = Some b" "\<not> available b" by blast
    let ?u = "u\<lparr>k_blist := (k_blist u)(list \<mapsto> l\<lparr>bl_lock := False\<rparr>)\<rparr>"
    obtain code' v where v: "wait list p ?u = (code', v)" by fastforce
    have "stays_out list p ?u" using b by (simp add: stays_out_def)
    from wait [OF this] v obtain m b' where m: "k_blist v list = Some m" "\<not> bl_lock m" and b': "k_buf v p = Some b'" "\<not> available b'"
      by (auto simp: stays_out_def split: option.splits)
    let ?v = "v\<lparr>k_log := Sync (Wait_event_timeout list code') # k_log v,
        k_blist := (k_blist v)(list \<mapsto> m\<lparr>bl_lock := True\<rparr>)\<rparr>"
    have "f wait list p code' ?v = Some r"
      using 1(2,3) assms(2,3) l b v m by (simp add: km_simps log_add_def)
    from 1(1) [OF this] b' show False by simp
  qed
  with assms show False by simp
qed

text \<open>
  C35: a buffer of the list that stays out keeps \<open>clear\<close> from ever returning. The buffers before it are
  in; each time \<open>clear\<close> waits for this one, the others leave it out and the lock free, and the wait
  returns, with a time-out or any other code: the loop waits again, for ever. The buffer is neither
  leaked nor passed over, as the documentation says it is after one second, and the buffers after
  it are never destroyed.
\<close>

theorem clear_never_gives_up:
  assumes "list \<noteq> NULL" "k_blist s list = Some l" "\<not> bl_lock l" "parentDev l \<noteq> NULL" "k_dev s (parentDev l) = Some d"
    "bl_head l = qs @ p # ps" "all_in env qs s" "p \<notin> set qs" "p \<noteq> NULL" "k_buf s p = Some b" "\<not> available b"
    "\<And>u. stays_out list p u \<Longrightarrow> stays_out list p (snd (wait list p u))"
  shows "pcieuni_bufferList_clear env wait list s = Inl Diverges"
proof -
  let ?l = "l\<lparr>bl_lock := True, shutDownFlag := 1\<rparr>"
  let ?s = "s\<lparr>k_blist := (k_blist s)(list \<mapsto> ?l)\<rparr>"
  let ?t = "clear_front env list d ?l qs (p # ps) ?s"
  have "all_in env qs ?s" using assms(7) by (simp add: all_in_def)
  then have front: "clear_loop env wait list (first_entry (qs @ p # ps)) ?s = clear_loop env wait list (Some p) ?t"
    using clear_loop_front [of list "parentDev l" ?s d ?l qs "p # ps" env wait] assms(1,4-6) by simp
  have "k_blist ?t list \<noteq> None" "k_buf ?t p = Some b" using assms(8,10) by (simp_all add: clear_front_def)
  from clear_wait_stuck [where wait = wait, OF assms(12,1,9) this assms(11)] have "clear_wait wait list p 1 ?t = None" by blast
  moreover have "get_bl list ?t = Inr (?l\<lparr>bl_head := p # ps\<rparr>, ?t)" using assms(1) by (simp add: clear_front_def km_simps)
  ultimately have "clear_entry env wait list p ?t = Inl Diverges" by (simp add: clear_entry_def km_simps)
  then have "clear_loop env wait list (Some p) ?t = Some (Inl Diverges)" by (simp add: clear_loop.simps)
  with front show ?thesis using assms(1-3,6) by (simp add: pcieuni_bufferList_clear_def km_simps)
qed

text \<open>A list of two buffers, the second out.\<close>

definition ex_second_out :: bst where
  "ex_second_out = ex_created\<lparr>k_buf := (\<lambda>_. None)(0x1000 := Some ex_avail, 0x2000 := Some ex_buffer),
     k_blist := (\<lambda>_. None)(0x500 := Some (ex_list [0x1000, 0x2000] 0x1000))\<rparr>"

theorem clear_never_gives_up_witness:
  "pcieuni_bufferList_clear quiet_kernel no_wait 0x500 ex_second_out = Inl Diverges"
  by (rule clear_never_gives_up [where l = "ex_list [0x1000, 0x2000] 0x1000" and b = ex_buffer and qs = "[0x1000]"
        and p = "0x2000" and d = "zero_dev\<lparr>pcieuni_pci_dev := 0x80\<rparr>"])
    (simp_all add: ex_second_out_def all_in_def ex_list_def no_wait_def,
     simp_all add: ex_created_def ex_bst_def buffer_made_def size_fits_def buffer_size_def ex_avail_def
      ex_buffer_def quiet_kernel_def)

end
