(* ===== verification/Buffer_Threads.thy ===== *)
theory Buffer_Threads
  imports Buffer_Shutdown
begin

text \<open>
  Several threads on one buffer list. The spin lock makes each part of an operation between two
  waits one step; between the parts of one thread the others run. The steps of \<open>get_free\<close> are
  the parts of the sequential definition (\<open>get_free_sections\<close>); those of \<open>clear\<close> are the entry, the
  test, the wait and the removal of one buffer, with the lock held from one to the next.
\<close>

section \<open>The parts of \<open>get_free\<close>\<close>

datatype gf_out = GfGot ptr | GfErr ptr | GfSleep ptr

text \<open>With the lock held: reserve the buffer if it is available, else release the lock and sleep.\<close>

definition gf_try :: "ptr \<Rightarrow> ptr \<Rightarrow> (bst, gf_out) km" where
  "gf_try list buffer =
     kbind (get_buf buffer) (\<lambda>b.
     if available b then kbind (get_free_reserve list buffer) (\<lambda>p. kret (GfGot p))
     else kseq (spin_unlock list) (kret (GfSleep buffer)))"

definition gf_enter :: "ptr \<Rightarrow> (bst, gf_out) km" where
  "gf_enter list =
     kseq (spin_lock list) (
     kbind (get_bl list) (\<lambda>l.
     if shutDownFlag l \<noteq> 0 then kseq (spin_unlock list) (kret (GfErr (ERR_PTR (- ENOMEM))))
     else gf_try list (bl_next l)))"

definition gf_resume :: "ptr \<Rightarrow> (bst, gf_out) km" where
  "gf_resume list =
     kseq (spin_lock list) (
     kbind (get_bl list) (\<lambda>l.
     if shutDownFlag l \<noteq> 0 then kret (GfErr (ERR_PTR (- EINTR)))
     else gf_try list (bl_next l)))"

text \<open>A thread asleep in \<open>get_free\<close> wakes with a code.\<close>

definition gf_woken :: "ptr \<Rightarrow> c_int \<Rightarrow> (bst, gf_out) km" where
  "gf_woken list code =
     kseq (log_call (Sync (Wait_event_timeout list code))) (
     if code = 0 then kret (GfErr (ERR_PTR (- EBUSY)))
     else if sint code < 0 then kret (GfErr (ERR_PTR (- EINTR)))
     else gf_resume list)"

partial_function (option) gf_sleeps ::
  "waiter \<Rightarrow> ptr \<Rightarrow> gf_out \<Rightarrow> bst \<Rightarrow> (kfault + (ptr \<times> bst)) option" where
  "gf_sleeps wait list out s =
     (case out of
        GfGot p \<Rightarrow> Some (Inr (p, s))
      | GfErr e \<Rightarrow> Some (Inr (e, s))
      | GfSleep p \<Rightarrow>
          (case kbind (klift (wait list p)) (gf_woken list) s of
             Inl e \<Rightarrow> Some (Inl e)
           | Inr (out', s') \<Rightarrow> gf_sleeps wait list out' s'))"

definition gf_end :: "ptr \<Rightarrow> kfault + (gf_step \<times> bst) \<Rightarrow> kfault + (ptr \<times> bst)" where
  "gf_end list r = (case r of Inl e \<Rightarrow> Inl e | Inr (GfReturn p, t) \<Rightarrow> Inr (p, t)
     | Inr (GfAgain p, t) \<Rightarrow> get_free_reserve list p t)"

definition gf_go :: "waiter \<Rightarrow> ptr \<Rightarrow> kfault + (gf_out \<times> bst) \<Rightarrow> (kfault + (ptr \<times> bst)) option" where
  "gf_go wait list r = (case r of Inl e \<Rightarrow> Some (Inl e) | Inr (out, t) \<Rightarrow> gf_sleeps wait list out t)"

text \<open>One wait of the loop and the parts it is made of.\<close>

lemma get_free_wait_parts:
  "gf_go wait list (kbind (kseq (spin_unlock list) (klift (wait list p))) (gf_woken list) s) =
     (case get_free_wait wait list p s of
        Inl e \<Rightarrow> Some (Inl e)
      | Inr (GfReturn r, t) \<Rightarrow> Some (Inr (r, t))
      | Inr (GfAgain q, t) \<Rightarrow> gf_go wait list (gf_try list q t))"
  by (auto simp: gf_go_def get_free_wait_def gf_woken_def gf_resume_def kbind_def kseq_def klift_def
      kret_def log_call_app gf_sleeps.simps split: sum.splits prod.splits)

lemma gf_try_step:
  "gf_go wait list (gf_try list p s) =
     (case get_buf p s of
        Inl e \<Rightarrow> Some (Inl e)
      | Inr (b, t) \<Rightarrow>
          (if available b then Some (gf_end list (Inr (GfAgain p, t)))
           else gf_go wait list (kbind (kseq (spin_unlock list) (klift (wait list p))) (gf_woken list) t)))"
proof (cases "get_buf p s")
  case (Inr bt)
  obtain b t where bt: "bt = (b, t)" by (cases bt)
  show ?thesis
  proof (cases "available b")
    case True
    then show ?thesis using Inr bt
      by (auto simp: gf_try_def gf_go_def gf_end_def kbind_def kret_def gf_sleeps.simps split: sum.splits)
  next
    case False
    then show ?thesis using Inr bt
      by (auto simp: gf_try_def gf_go_def kbind_def kseq_def kret_def klift_def
          gf_sleeps.simps [of _ _ "GfSleep p"] split: sum.splits)
  qed
qed (simp add: gf_try_def gf_go_def kbind_def)

lemma get_free_loop_parts:
  assumes "get_free_loop wait list p s = Some r"
  shows "gf_go wait list (gf_try list p s) = Some (gf_end list r)"
proof (rule get_free_loop.raw_induct
    [where P = "\<lambda>wait list p s r. gf_go wait list (gf_try list p s) = Some (gf_end list r)", OF _ assms])
  fix f wait list p s r
  assume IH: "\<And>wait list p s r. f wait list p s = Some r \<Longrightarrow> gf_go wait list (gf_try list p s) = Some (gf_end list r)"
    and eq: "(case get_buf p s of Inl e \<Rightarrow> Some (Inl e)
      | Inr (b, s1) \<Rightarrow> if available b then Some (Inr (GfAgain p, s1))
        else case get_free_wait wait list p s1 of Inl e \<Rightarrow> Some (Inl e)
          | Inr (GfReturn r, s2) \<Rightarrow> Some (Inr (GfReturn r, s2))
          | Inr (GfAgain buffer', s2) \<Rightarrow> f wait list buffer' s2) = Some r"
  show "gf_go wait list (gf_try list p s) = Some (gf_end list r)"
    using eq IH by (subst gf_try_step, subst get_free_wait_parts)
      (auto simp: gf_end_def split: sum.splits prod.splits if_splits gf_step.splits)
qed

lemma gf_try_fault:
  assumes "gf_try list p s = Inl e"
  shows "\<exists>q. get_free_loop wait list p s = Some q"
proof (cases "get_buf p s")
  case (Inr bt)
  obtain b t where bt: "bt = (b, t)" by (cases bt)
  show ?thesis
  proof (cases "available b")
    case False
    then have "\<exists>e. spin_unlock list t = Inl e"
      using assms Inr bt by (auto simp: gf_try_def kbind_def kseq_def kret_def split: sum.splits)
    then have "\<exists>e. get_free_wait wait list p t = Inl e" by (auto simp: get_free_wait_def kseq_Inl)
    with False Inr bt show ?thesis by (auto simp: get_free_loop.simps)
  qed (use Inr bt in \<open>simp add: get_free_loop.simps\<close>)
qed (simp add: get_free_loop.simps)

lemma get_free_parts_loop:
  assumes "gf_sleeps wait list out t = Some r" "gf_try list p s = Inr (out, t)"
  shows "\<exists>q. get_free_loop wait list p s = Some q"
proof -
  let ?P = "\<lambda>wait list out t r. \<forall>p s. gf_try list p s = Inr (out, t) \<longrightarrow> (\<exists>q. get_free_loop wait list p s = Some q)"
  have "?P wait list out t r"
  proof (rule gf_sleeps.raw_induct [where P = ?P, OF _ assms(1)], intro allI impI)
    fix f wait list out t r p s
    assume IH: "\<And>wait list out t r. f wait list out t = Some r \<Longrightarrow> ?P wait list out t r"
      and eq: "(case out of GfGot p \<Rightarrow> Some (Inr (p, t)) | GfErr e \<Rightarrow> Some (Inr (e, t))
        | GfSleep p \<Rightarrow> case kbind (klift (wait list p)) (gf_woken list) t of
            Inl e \<Rightarrow> Some (Inl e) | Inr (out', s') \<Rightarrow> f wait list out' s') = Some r"
      and tried: "gf_try list p s = Inr (out, t)"
    from tried obtain b where b: "get_buf p s = Inr (b, s)"
      by (auto simp: gf_try_def kbind_def get_buf_def split: sum.splits if_splits option.splits)
    show "\<exists>q. get_free_loop wait list p s = Some q"
    proof (cases "available b")
      case True
      then show ?thesis using b by (simp add: get_free_loop.simps)
    next
      case False
      then have unl: "spin_unlock list s = Inr ((), t)" and out: "out = GfSleep p"
        using tried b by (auto simp: gf_try_def kbind_def kseq_def kret_def split: sum.splits)
      show ?thesis
      proof (cases "get_free_wait wait list p s")
        case (Inr st)
        obtain g u where st: "st = (g, u)" by (cases st)
        show ?thesis
        proof (cases g)
          case (GfAgain q)
          with Inr st unl have "kbind (klift (wait list p)) (gf_woken list) t = gf_try list q u"
            by (auto simp: get_free_wait_def gf_woken_def gf_resume_def kbind_def kseq_def klift_def
                kret_def log_call_app split: sum.splits prod.splits if_splits)
          then have "\<exists>q'. get_free_loop wait list q u = Some q'"
            using eq out by (cases "gf_try list q u") (auto dest: IH gf_try_fault [of _ _ _ _ wait])
          then show ?thesis using GfAgain False b Inr st by (simp add: get_free_loop.simps [of _ _ p])
        qed (use False b Inr st in \<open>simp add: get_free_loop.simps\<close>)
      qed (use False b in \<open>simp add: get_free_loop.simps\<close>)
    qed
  qed
  with assms(2) show ?thesis by blast
qed

text \<open>
  \<open>get_free\<close> is its parts run one after the other: it enters, and as long as a part ends
  asleep it waits and runs the next part. Whatever the wait returns and does to the memory, both
  give the same result, and one runs for ever exactly when the other does.
\<close>

lemma get_free_sections:
  "pcieuni_bufferList_get_free wait list s = kbind (gf_enter list) (\<lambda>out. kloop (gf_sleeps wait list out)) s"
proof -
  have parts: "kbind (kloop (get_free_loop wait list p)) (\<lambda>step.
         case step of GfReturn r \<Rightarrow> kret r | GfAgain buffer \<Rightarrow> get_free_reserve list buffer) t =
      kbind (gf_try list p) (\<lambda>out. kloop (gf_sleeps wait list out)) t" for p t
  proof (cases "get_free_loop wait list p t")
    case None
    then obtain out u where "gf_try list p t = Inr (out, u)" "gf_sleeps wait list out u = None"
      using gf_try_fault [of list p t _ wait] get_free_parts_loop [of wait list _ _ _ p t]
      by (cases "gf_try list p t") fastforce+
    with None show ?thesis by (simp add: kbind_def kloop_def)
  next
    case (Some r)
    from get_free_loop_parts [OF Some] have "gf_go wait list (gf_try list p t) = Some (gf_end list r)" .
    with Some show ?thesis
      by (auto simp: kbind_def kloop_def gf_go_def gf_end_def kret_def split: sum.splits gf_step.splits)
  qed
  show ?thesis
    unfolding pcieuni_bufferList_get_free_def gf_enter_def kseq_def
    using parts by (auto simp: kbind_def kloop_def kret_def gf_sleeps.simps split: sum.splits)
qed

section \<open>Threads\<close>

text \<open>
  What a thread is doing: nothing, asleep in \<open>get_free\<close> for a buffer, in \<open>clear\<close> with the lock held
  at a buffer (with the next entry and the last code), or asleep in \<open>clear\<close>.
\<close>

datatype tstate = TIdle | TSleep ptr | TClear ptr "ptr option" c_int | TClearSleep ptr "ptr option"

datatype action = ATake ptr | AGive ptr | ADestroy ptr | AOther

text \<open>The memory, the threads by number, and which thread has taken which buffer.\<close>

record bsys =
  sy_mem :: bst
  sy_thr :: "nat \<Rightarrow> tstate"
  sy_own :: "ptr \<Rightarrow> nat option"

definition gf_action :: "gf_out \<Rightarrow> action" where
  "gf_action out = (case out of GfGot p \<Rightarrow> ATake p | _ \<Rightarrow> AOther)"

definition gf_after :: "nat \<Rightarrow> gf_out \<Rightarrow> bst \<Rightarrow> bsys \<Rightarrow> bsys" where
  "gf_after t out m S = (case out of
     GfGot p \<Rightarrow> S\<lparr>sy_mem := m, sy_thr := (sy_thr S)(t := TIdle), sy_own := (sy_own S)(p \<mapsto> t)\<rparr>
   | GfErr e \<Rightarrow> S\<lparr>sy_mem := m, sy_thr := (sy_thr S)(t := TIdle)\<rparr>
   | GfSleep p \<Rightarrow> S\<lparr>sy_mem := m, sy_thr := (sy_thr S)(t := TSleep p)\<rparr>)"

text \<open>
  The start of \<open>clear\<close>, and the end of the work on one entry: both go to the next entry or, at
  the end of the list, release the lock.
\<close>

definition clear_at :: "ptr \<Rightarrow> ptr option \<Rightarrow> (bst, tstate) km" where
  "clear_at list pos = (case pos of
     None \<Rightarrow> kseq (spin_unlock list) (kret TIdle)
   | Some p \<Rightarrow> kbind (get_bl list) (\<lambda>l. kret (TClear p (list_next (bl_head l) p) 1)))"

definition clear_begin :: "ptr \<Rightarrow> (bst, tstate) km" where
  "clear_begin list =
     kseq (spin_lock list) (
     kseq (upd_bl list (\<lambda>l. l\<lparr>shutDownFlag := 1\<rparr>)) (
     kbind (get_bl list) (\<lambda>l. clear_at list (case bl_head l of [] \<Rightarrow> None | p # _ \<Rightarrow> Some p))))"

definition clear_remove :: "kenv \<Rightarrow> ptr \<Rightarrow> ptr \<Rightarrow> ptr option \<Rightarrow> c_int \<Rightarrow> (bst, tstate) km" where
  "clear_remove env list p tpos code = kseq (clear_unlink env list p code) (clear_at list tpos)"

text \<open>
  The threads in any order: a step is the part of one operation of one thread. The relation says
  how the operations interleave and what the clients keep to: a thread gives back only a buffer it
  has taken, appends only an available buffer that is not in the list, and clears the list only
  while no one has cleared it. A part that faults or waits for the lock for ever has no step, so
  the relation describes runs up to a fault, not whether there is one.
\<close>

inductive bl_step :: "kenv \<Rightarrow> ptr \<Rightarrow> bsys \<Rightarrow> nat \<Rightarrow> action \<Rightarrow> bsys \<Rightarrow> bool" for env list where
  enter: "sy_thr S t = TIdle \<Longrightarrow> gf_enter list (sy_mem S) = Inr (out, m) \<Longrightarrow>
    bl_step env list S t (gf_action out) (gf_after t out m S)"
| wake: "sy_thr S t = TSleep p \<Longrightarrow> gf_woken list code (sy_mem S) = Inr (out, m) \<Longrightarrow>
    bl_step env list S t (gf_action out) (gf_after t out m S)"
| give: "sy_thr S t = TIdle \<Longrightarrow> sy_own S p = Some t \<Longrightarrow>
    pcieuni_bufferList_set_free list p (sy_mem S) = Inr ((), m) \<Longrightarrow>
    bl_step env list S t (AGive p) (S\<lparr>sy_mem := m, sy_own := (sy_own S)(p := None)\<rparr>)"
| append: "sy_thr S t = TIdle \<Longrightarrow> k_blist (sy_mem S) list = Some l \<Longrightarrow> p \<notin> set (bl_head l) \<Longrightarrow>
    k_buf (sy_mem S) p = Some b \<Longrightarrow> available b \<Longrightarrow>
    pcieuni_bufferList_append list p (sy_mem S) = Inr ((), m) \<Longrightarrow>
    bl_step env list S t AOther (S\<lparr>sy_mem := m\<rparr>)"
| clear_start: "sy_thr S t = TIdle \<Longrightarrow> k_blist (sy_mem S) list = Some l \<Longrightarrow> shutDownFlag l = 0 \<Longrightarrow>
    clear_begin list (sy_mem S) = Inr (ts, m) \<Longrightarrow>
    bl_step env list S t AOther (S\<lparr>sy_mem := m, sy_thr := (sy_thr S)(t := ts)\<rparr>)"
| clear_block: "sy_thr S t = TClear p tpos code \<Longrightarrow> k_buf (sy_mem S) p = Some b \<Longrightarrow> \<not> available b \<Longrightarrow>
    spin_unlock list (sy_mem S) = Inr ((), m) \<Longrightarrow>
    bl_step env list S t AOther (S\<lparr>sy_mem := m, sy_thr := (sy_thr S)(t := TClearSleep p tpos)\<rparr>)"
| clear_wake: "sy_thr S t = TClearSleep p tpos \<Longrightarrow>
    kseq (log_call (Sync (Wait_event_timeout list code))) (spin_lock list) (sy_mem S) = Inr ((), m) \<Longrightarrow>
    bl_step env list S t AOther (S\<lparr>sy_mem := m, sy_thr := (sy_thr S)(t := TClear p tpos code)\<rparr>)"
| clear_done: "sy_thr S t = TClear p tpos code \<Longrightarrow> k_buf (sy_mem S) p = Some b \<Longrightarrow> available b \<Longrightarrow>
    clear_remove env list p tpos code (sy_mem S) = Inr (ts, m) \<Longrightarrow>
    bl_step env list S t (ADestroy p) (S\<lparr>sy_mem := m, sy_thr := (sy_thr S)(t := ts)\<rparr>)"

inductive_cases take_cases: "bl_step env list S t (ATake p) S'"
inductive_cases destroy_cases: "bl_step env list S t (ADestroy p) S'"

text \<open>The list after \<open>init\<close>, before any thread has used it.\<close>

definition bl_start :: "ptr \<Rightarrow> bsys \<Rightarrow> bool" where
  "bl_start list S \<longleftrightarrow> list \<noteq> NULL \<and>
     (\<exists>dev m. pcieuni_bufferList_init list dev m = Inr ((), sy_mem S)) \<and>
     sy_thr S = (\<lambda>_. TIdle) \<and> sy_own S = (\<lambda>_. None)"

inductive bl_reach :: "kenv \<Rightarrow> ptr \<Rightarrow> bsys \<Rightarrow> bool" for env list where
  start: "bl_start list S \<Longrightarrow> bl_reach env list S"
| step: "bl_reach env list S \<Longrightarrow> bl_step env list S t a S' \<Longrightarrow> bl_reach env list S'"

section \<open>What the parts do to the buffers\<close>

text \<open>A part of \<open>get_free\<close> changes a buffer only by reserving one that was available.\<close>

definition gf_effect :: "ptr \<Rightarrow> bst \<Rightarrow> gf_out \<Rightarrow> bst \<Rightarrow> bool" where
  "gf_effect list s out t \<longleftrightarrow> (\<exists>l l'. k_blist s list = Some l \<and> k_blist t list = Some l' \<and> bl_head l' = bl_head l \<and>
     (case out of
        GfGot p \<Rightarrow> p \<in> set (bl_head l) \<and> (\<exists>b. k_buf s p = Some b \<and> available b \<and> k_buf t = (k_buf s)(p \<mapsto> reserve b))
      | _ \<Rightarrow> k_buf t = k_buf s))"

lemma gf_try_effect:
  assumes "k_blist s list = Some l" "gf_try list (bl_next l) s = Inr (out, t)"
  shows "gf_effect list s out t"
proof -
  from assms(2) obtain b where b: "bl_next l \<noteq> NULL" "k_buf s (bl_next l) = Some b"
    by (auto simp: gf_try_def bl_inverts)
  show ?thesis
  proof (cases "available b")
    case True
    then obtain p where r: "get_free_reserve list (bl_next l) s = Inr (p, t)" "out = GfGot p"
      using assms(2) b by (auto simp: gf_try_def bl_inverts)
    then have nx: "list \<noteq> NULL" "bl_next l \<in> set (bl_head l)"
      using assms(1) b by (auto simp: get_free_reserve_def buf_clear_bit_def buf_set_bit_def bl_inverts
          split: if_splits)
    with reserve_result [OF nx(1) assms(1) b nx(2)] r True b assms(1) show ?thesis
      by (auto simp: gf_effect_def)
  next
    case False
    then show ?thesis using assms b by (auto simp: gf_try_def bl_inverts gf_effect_def)
  qed
qed

lemma gf_effect_lock:
  assumes "k_blist s list = Some l" "gf_effect list (s\<lparr>k_blist := (k_blist s)(list \<mapsto> l\<lparr>bl_lock := c\<rparr>)\<rparr>) out t"
  shows "gf_effect list s out t"
  using assms by (auto simp: gf_effect_def split: gf_out.splits)

lemma gf_resume_effect:
  assumes "gf_resume list s = Inr (out, t)"
  shows "gf_effect list s out t"
proof -
  obtain l where l: "list \<noteq> NULL" "k_blist s list = Some l" "\<not> bl_lock l"
    using assms by (auto simp: gf_resume_def bl_inverts)
  let ?s = "s\<lparr>k_blist := (k_blist s)(list \<mapsto> l\<lparr>bl_lock := True\<rparr>)\<rparr>"
  show ?thesis
  proof (cases "shutDownFlag l = 0")
    case True
    then have "gf_try list (bl_next (l\<lparr>bl_lock := True\<rparr>)) ?s = Inr (out, t)"
      using assms l by (simp add: gf_resume_def km_simps)
    from gf_try_effect [OF _ this] have "gf_effect list ?s out t" by simp
    then show ?thesis by (rule gf_effect_lock [OF l(2)])
  next
    case False
    then show ?thesis using assms l by (auto simp: gf_resume_def km_simps gf_effect_def)
  qed
qed

lemma gf_enter_effect:
  assumes "gf_enter list s = Inr (out, t)"
  shows "gf_effect list s out t"
proof -
  obtain l where l: "list \<noteq> NULL" "k_blist s list = Some l" "\<not> bl_lock l"
    using assms by (auto simp: gf_enter_def bl_inverts)
  let ?s = "s\<lparr>k_blist := (k_blist s)(list \<mapsto> l\<lparr>bl_lock := True\<rparr>)\<rparr>"
  show ?thesis
  proof (cases "shutDownFlag l = 0")
    case True
    then have "gf_try list (bl_next (l\<lparr>bl_lock := True\<rparr>)) ?s = Inr (out, t)"
      using assms l by (simp add: gf_enter_def km_simps)
    from gf_try_effect [OF _ this] have "gf_effect list ?s out t" by simp
    then show ?thesis by (rule gf_effect_lock [OF l(2)])
  next
    case False
    then show ?thesis using assms l by (auto simp: gf_enter_def km_simps gf_effect_def)
  qed
qed

lemma gf_woken_effect:
  assumes "gf_woken list code s = Inr (out, t)" "k_blist s list = Some l"
  shows "gf_effect list s out t"
proof -
  let ?s = "log_add (Sync (Wait_event_timeout list code)) s"
  have "gf_effect list ?s out t"
    using assms gf_resume_effect [of list ?s out t]
    by (cases "code = 0"; cases "sint code < 0") (auto simp: gf_woken_def km_simps gf_effect_def)
  then show ?thesis by (cases out) (simp_all add: gf_effect_def)
qed

text \<open>Destroying a buffer touches no other buffer and no list.\<close>

lemma page_loop_frame:
  assumes "page_loop ev ps sz i s = Some t"
  shows "k_buf t = k_buf s \<and> k_blist t = k_blist s"
proof (rule page_loop.raw_induct
    [where P = "\<lambda>ev ps sz i s t. k_buf t = k_buf s \<and> k_blist t = k_blist s", OF _ assms])
  fix f ev ps sz i s t
  assume "\<And>ev ps sz i s t. f ev ps sz i s = Some t \<Longrightarrow> k_buf t = k_buf s \<and> k_blist t = k_blist s"
    "(if i < sz then f ev ps sz (i + ps) (log_add (ev i) s) else Some s) = Some t"
  then show "k_buf t = k_buf s \<and> k_blist t = k_blist s" by (fastforce split: if_splits)
qed

lemma for_pages_frame:
  "for_pages env ev sz s = Inr (u, t) \<Longrightarrow> k_buf t = k_buf s \<and> k_blist t = k_blist s"
  by (auto simp: for_pages_def kloop_def page_loop_frame split: option.splits)

lemma destroy_frame:
  assumes "pcieuni_buffer_destroy env dev p s = Inr (u, t)" "p \<noteq> NULL"
  shows "k_buf t = (k_buf s)(p := None) \<and> k_blist t = k_blist s"
proof -
  from assms obtain b m v where b: "k_buf s p = Some b" and
    m: "kwhen (b_kaddr b \<noteq> NULL) (
          kbind (get_dev dev) (\<lambda>d.
          kseq (kwhen (\<not> dma_mapping_error_ret env (pcieuni_pci_dev d) (b_dma_handle b))
                  (log_call (Mem (Dma_unmap_single (pcieuni_pci_dev d) (b_dma_handle b) (b_size b)))))
          (kseq (for_pages env (\<lambda>iter. Mem (ClearPageReserved (b_kaddr b + iter))) (b_size b))
          (log_call (Mem (Free_pages (b_kaddr b) (b_order b))))))) s = Inr (v, m)"
    and t: "t = log_add (Mem (Kfree p)) (m\<lparr>k_buf := (k_buf m)(p := None)\<rparr>)"
    unfolding pcieuni_buffer_destroy_def
    by (auto simp only: kbind_eq_Inr kseq_eq_Inr get_buf_eq_Inr kmod_app log_call_app if_False
        Inr_inject prod.inject)
  from m have "k_buf m = k_buf s \<and> k_blist m = k_blist s"
    by (cases "b_kaddr b = NULL")
       (auto simp: kwhen_def kret_app kbind_eq_Inr kseq_eq_Inr get_dev_eq_Inr log_call_app
         dest!: for_pages_frame split: if_splits)
  with t show ?thesis by simp
qed

lemma destroy_null: "pcieuni_buffer_destroy env dev NULL s = Inr ((), s)"
  by (simp add: pcieuni_buffer_destroy_def km_simps)

lemma clear_at_frame:
  assumes "clear_at list pos s = Inr (ts, t)" "k_blist s list = Some l"
  shows "k_buf t = k_buf s \<and> (\<exists>l'. k_blist t list = Some l' \<and> bl_head l' = bl_head l)"
  using assms by (cases pos) (auto simp: clear_at_def bl_inverts)

lemma clear_remove_frame:
  assumes "clear_remove env list p tpos code s = Inr (ts, t)" "k_blist s list = Some l"
  shows "(k_buf t = k_buf s \<or> k_buf t = (k_buf s)(p := None)) \<and>
    (\<exists>l'. k_blist t list = Some l' \<and> bl_head l' = remove1 p (bl_head l))"
proof -
  from assms(1) obtain m where
    m: "clear_unlink env list p code s = Inr ((), m)" "clear_at list tpos m = Inr (ts, t)"
    by (auto simp: clear_remove_def kseq_eq_Inr)
  let ?l = "l\<lparr>bl_head := remove1 p (bl_head l)\<rparr>"
  let ?s = "s\<lparr>k_blist := (k_blist s)(list \<mapsto> ?l)\<rparr>"
  have "list \<noteq> NULL" "p \<in> set (bl_head l)"
    using m(1) assms(2) by (auto simp: clear_unlink_def bl_inverts split: if_splits)
  with m(1) assms(2) have "kwhen (0 < sint code) (pcieuni_buffer_destroy env (parentDev ?l) p) ?s = Inr ((), m)"
    by (cases "0 < sint code") (simp_all add: clear_unlink_def km_simps)
  then have "(k_buf m = k_buf s \<or> k_buf m = (k_buf s)(p := None)) \<and> k_blist m = (k_blist s)(list \<mapsto> ?l)"
    using destroy_frame [of env "parentDev ?l" p ?s] destroy_null [of env "parentDev ?l" ?s]
    by (cases "p = NULL") (auto simp: kwhen_eq_Inr split: if_splits)
  moreover from this clear_at_frame [OF m(2), of ?l] have
    "k_buf t = k_buf m" "\<exists>l'. k_blist t list = Some l' \<and> bl_head l' = bl_head ?l" by auto
  ultimately show ?thesis by simp
qed

section \<open>Ownership\<close>

text \<open>
  The buffers of the list are allocated, a buffer is marked unavailable exactly while a thread has
  it, and a buffer a thread has is in the list.
\<close>

definition bl_owned :: "ptr \<Rightarrow> bsys \<Rightarrow> bool" where
  "bl_owned list S \<longleftrightarrow> list \<noteq> NULL \<and> (\<exists>l. k_blist (sy_mem S) list = Some l \<and> distinct (bl_head l) \<and>
     (\<forall>p \<in> set (bl_head l). p \<noteq> NULL \<and>
        (\<exists>b. k_buf (sy_mem S) p = Some b \<and> (available b \<longleftrightarrow> sy_own S p = None))) \<and>
     (\<forall>p t. sy_own S p = Some t \<longrightarrow> p \<in> set (bl_head l)))"

lemma bl_ownedI:
  assumes "list \<noteq> NULL" "k_blist (sy_mem S) list = Some l" "distinct (bl_head l)"
    "\<And>p. p \<in> set (bl_head l) \<Longrightarrow> p \<noteq> NULL \<and>
        (\<exists>b. k_buf (sy_mem S) p = Some b \<and> (available b \<longleftrightarrow> sy_own S p = None))"
    "\<And>p t. sy_own S p = Some t \<Longrightarrow> p \<in> set (bl_head l)"
  shows "bl_owned list S"
  using assms by (auto simp: bl_owned_def)

lemma bl_ownedD:
  assumes "bl_owned list S" "k_blist (sy_mem S) list = Some l"
  shows "list \<noteq> NULL" "distinct (bl_head l)"
    "p \<in> set (bl_head l) \<Longrightarrow> p \<noteq> NULL"
    "p \<in> set (bl_head l) \<Longrightarrow> \<exists>b. k_buf (sy_mem S) p = Some b \<and> (available b \<longleftrightarrow> sy_own S p = None)"
    "sy_own S p = Some t \<Longrightarrow> p \<in> set (bl_head l)"
  using assms by (auto simp: bl_owned_def)

lemma bl_owned_frame:
  assumes "bl_owned list S" "k_blist (sy_mem S) list = Some l" "k_blist (sy_mem S') list = Some l'"
    "bl_head l' = bl_head l" "k_buf (sy_mem S') = k_buf (sy_mem S)" "sy_own S' = sy_own S"
  shows "bl_owned list S'"
  using bl_ownedD [OF assms(1,2)] assms(3-6) by (intro bl_ownedI [of _ _ l']) auto

lemma bl_owned_get_free:
  assumes inv: "bl_owned list S" and eff: "gf_effect list (sy_mem S) out m"
  shows "bl_owned list (gf_after t out m S)"
proof -
  from eff obtain l l' where l: "k_blist (sy_mem S) list = Some l" "k_blist m list = Some l'"
    "bl_head l' = bl_head l" by (auto simp: gf_effect_def)
  note D = bl_ownedD [OF inv l(1)]
  show ?thesis
  proof (cases out)
    case (GfGot p)
    with eff l obtain b where "p \<in> set (bl_head l)" "k_buf (sy_mem S) p = Some b"
      "k_buf m = (k_buf (sy_mem S))(p \<mapsto> reserve b)" by (auto simp: gf_effect_def)
    with D l GfGot show ?thesis
      by (intro bl_ownedI [of _ _ l']) (auto simp: gf_after_def split: if_splits)
  qed (use eff inv l in \<open>auto simp: gf_after_def gf_effect_def intro: bl_owned_frame\<close>)
qed

lemma take_was_free:
  assumes "bl_owned list S" "gf_effect list (sy_mem S) (GfGot p) m"
  shows "sy_own S p = None \<and> (\<exists>b. k_buf m p = Some b \<and> \<not> available b \<and> waiting b)"
  using assms by (fastforce simp: gf_effect_def dest: bl_ownedD)

lemma set_free_frame:
  assumes "pcieuni_bufferList_set_free list p s = Inr (u, t)" "k_blist s list = Some l"
  shows "\<exists>b l'. k_buf s p = Some b \<and> k_buf t = (k_buf s)(p \<mapsto> release b) \<and>
    k_blist t list = Some l' \<and> bl_head l' = bl_head l"
proof -
  have "list \<noteq> NULL" "\<not> bl_lock l" using assms
    by (auto simp: pcieuni_bufferList_set_free_def kseq_eq_Inr spin_lock_eq_Inr)
  moreover obtain b where "p \<noteq> NULL" "k_buf s p = Some b" using assms
    by (auto simp: pcieuni_bufferList_set_free_def kseq_eq_Inr spin_lock_eq_Inr buf_clear_bit_def upd_buf_eq_Inr)
  ultimately show ?thesis using assms set_free_result [of list s l p b] by auto
qed

lemma append_frame:
  assumes "pcieuni_bufferList_append list p s = Inr (u, t)" "k_blist s list = Some l"
  shows "p \<noteq> NULL \<and> k_buf t = k_buf s \<and> (\<exists>l'. k_blist t list = Some l' \<and> bl_head l' = bl_head l @ [p])"
proof -
  have "list \<noteq> NULL" "\<not> bl_lock l" using assms
    by (auto simp: pcieuni_bufferList_append_def kseq_eq_Inr spin_lock_eq_Inr)
  moreover obtain b where "p \<noteq> NULL" "k_buf s p = Some b" using assms
    by (auto simp: pcieuni_bufferList_append_def kseq_eq_Inr kbind_eq_Inr spin_lock_eq_Inr get_buf_eq_Inr)
  ultimately show ?thesis using assms append_result [of list s l p b] by auto
qed

lemma clear_begin_frame:
  assumes "clear_begin list s = Inr (ts, t)" "k_blist s list = Some l"
  shows "k_buf t = k_buf s \<and> (\<exists>l'. k_blist t list = Some l' \<and> bl_head l' = bl_head l)"
proof -
  let ?l = "l\<lparr>bl_lock := True, shutDownFlag := 1\<rparr>"
  have "list \<noteq> NULL" "\<not> bl_lock l" using assms
    by (auto simp: clear_begin_def kseq_eq_Inr spin_lock_eq_Inr)
  with assms have "clear_at list (case bl_head l of [] \<Rightarrow> None | p # _ \<Rightarrow> Some p)
      (s\<lparr>k_blist := (k_blist s)(list \<mapsto> ?l)\<rparr>) = Inr (ts, t)"
    by (simp add: clear_begin_def km_simps)
  from clear_at_frame [OF this, of ?l] show ?thesis by simp
qed

lemma bl_owned_step:
  assumes "bl_step env list S t a S'" "bl_owned list S"
  shows "bl_owned list S'"
  using assms
proof cases
  case (enter out m)
  then show ?thesis using bl_owned_get_free [OF assms(2) gf_enter_effect] by simp
next
  case (wake p code out m)
  then show ?thesis
    using assms(2) bl_owned_get_free [OF assms(2) gf_woken_effect] by (auto simp: bl_owned_def)
next
  case (give p m)
  from assms(2) obtain l where l: "k_blist (sy_mem S) list = Some l" by (auto simp: bl_owned_def)
  note D = bl_ownedD [OF assms(2) l]
  from set_free_frame [OF give(5) l] obtain b l' where
    "k_buf (sy_mem S) p = Some b" "k_buf m = (k_buf (sy_mem S))(p \<mapsto> release b)"
    "k_blist m list = Some l'" "bl_head l' = bl_head l" by blast
  with D give show ?thesis by (intro bl_ownedI [of _ _ l']) (auto split: if_splits)
next
  case (append l p b m)
  note D = bl_ownedD [OF assms(2) append(4)]
  from append_frame [OF append(8,4)] obtain l' where
    "p \<noteq> NULL" "k_buf m = k_buf (sy_mem S)" "k_blist m list = Some l'" "bl_head l' = bl_head l @ [p]" by blast
  moreover have "sy_own S p = None" using D(5) append(5) by (cases "sy_own S p") auto
  ultimately show ?thesis using D append by (intro bl_ownedI [of _ _ l']) auto
next
  case (clear_start l ts m)
  from clear_begin_frame [OF clear_start(6,4)] show ?thesis
    using bl_owned_frame [OF assms(2) clear_start(4)] clear_start by auto
next
  case (clear_block p tpos code b m)
  then show ?thesis using bl_owned_frame [OF assms(2)] by (auto simp: spin_unlock_eq_Inr)
next
  case (clear_wake p tpos code m)
  then show ?thesis using bl_owned_frame [OF assms(2)]
    by (auto simp: kseq_eq_Inr log_call_app spin_lock_eq_Inr)
next
  case (clear_done p tpos code b ts m)
  from assms(2) obtain l where l: "k_blist (sy_mem S) list = Some l" by (auto simp: bl_owned_def)
  note D = bl_ownedD [OF assms(2) l]
  have free: "sy_own S p = None" using D(4,5) clear_done(4,5) by (cases "sy_own S p") fastforce+
  from clear_remove_frame [OF clear_done(6) l] obtain l' where
    "k_buf m = k_buf (sy_mem S) \<or> k_buf m = (k_buf (sy_mem S))(p := None)"
    "k_blist m list = Some l'" "bl_head l' = remove1 p (bl_head l)" by blast
  with D free clear_done show ?thesis by (intro bl_ownedI [of _ _ l']) auto
qed

lemma bl_owned_start: "bl_start list S \<Longrightarrow> bl_owned list S"
  by (auto simp: bl_start_def bl_owned_def pcieuni_bufferList_init_def upd_bl_eq_Inr)

lemma bl_reach_owned: "bl_reach env list S \<Longrightarrow> bl_owned list S"
  by (induction rule: bl_reach.induct) (auto intro: bl_owned_start bl_owned_step)

section \<open>Properties of all interleavings\<close>

text \<open>
  C8: exclusive use under every interleaving of \<open>get_free\<close>, \<open>set_free\<close>, \<open>append\<close> and \<open>clear\<close> by any
  number of threads that keep to the rules of \<open>bl_step\<close>: they give back only what they have taken,
  append only available buffers that are not in the list, and clear the list once. When \<open>get_free\<close> hands a buffer to a thread, no thread has it; and a buffer a
  thread has stays allocated, in the list and marked unavailable until it is given back.
\<close>

theorem buffers_used_exclusively:
  assumes "bl_reach env list S"
  shows "(\<forall>t p S'. bl_step env list S t (ATake p) S' \<longrightarrow> sy_own S p = None \<and> sy_own S' p = Some t) \<and>
    (\<forall>p t. sy_own S p = Some t \<longrightarrow> (\<exists>l b. k_blist (sy_mem S) list = Some l \<and> p \<in> set (bl_head l) \<and>
       k_buf (sy_mem S) p = Some b \<and> \<not> available b))"
proof (intro conjI allI impI)
  note inv = bl_reach_owned [OF assms]
  fix p t
  show "\<exists>l b. k_blist (sy_mem S) list = Some l \<and> p \<in> set (bl_head l) \<and>
       k_buf (sy_mem S) p = Some b \<and> \<not> available b" if "sy_own S p = Some t"
    using inv that by (fastforce simp: bl_owned_def)
  fix S'
  assume "bl_step env list S t (ATake p) S'"
  then obtain m where "gf_effect list (sy_mem S) (GfGot p) m" "S' = gf_after t (GfGot p) m S"
    using inv by (cases rule: take_cases)
      (auto simp: gf_action_def bl_owned_def dest: gf_enter_effect gf_woken_effect split: gf_out.splits)
  then show "sy_own S p = None" "sy_own S' p = Some t"
    using take_was_free [OF inv] by (auto simp: gf_after_def)
qed

text \<open>
  C9: \<open>clear\<close> never unlinks or destroys a buffer a thread has, under every interleaving of such
  threads.
\<close>

theorem clear_spares_used_buffers:
  assumes "bl_reach env list S" "bl_step env list S t (ADestroy p) S'"
  shows "sy_own S p = None"
  using assms(2) bl_reach_owned [OF assms(1)]
  by (cases rule: destroy_cases)
    (auto simp: gf_action_def bl_owned_def split: gf_out.splits, metis option.exhaust option.inject)

section \<open>An execution\<close>

text \<open>
  One buffer and three threads: thread 1 takes the buffer, thread 2 waits for it, thread 3 clears
  the list, thread 1 gives the buffer back, and thread 3 wakes first.
\<close>

definition run_mem :: "klog \<Rightarrow> pcieuni_buffer option \<Rightarrow> pcieuni_buffer_list \<Rightarrow> bst" where
  "run_mem log buf l = ex_bst\<lparr>k_log := log, k_buf := (\<lambda>_. None)(0x1000 := buf),
     k_blist := (\<lambda>_. None)(0x500 := Some l)\<rparr>"

definition run_start :: bsys where
  "run_start = \<lparr>sy_mem = run_mem [] (Some ex_avail) (ex_list [] 0), sy_thr = (\<lambda>_. TIdle), sy_own = (\<lambda>_. None)\<rparr>"

definition run_appended :: bsys where
  "run_appended = run_start\<lparr>sy_mem := run_mem [] (Some ex_avail) (ex_list [0x1000] 0x1000)\<rparr>"

definition run_taken :: bsys where
  "run_taken = run_appended\<lparr>sy_mem := run_mem [] (Some (reserve ex_avail)) (ex_list [0x1000] 0x1000),
     sy_own := (\<lambda>_. None)(0x1000 := Some 1)\<rparr>"

definition run_waiting :: bsys where
  "run_waiting = run_taken\<lparr>sy_thr := (\<lambda>_. TIdle)(2 := TSleep 0x1000)\<rparr>"

definition run_clearing :: bsys where
  "run_clearing = run_waiting\<lparr>
     sy_mem := run_mem [] (Some (reserve ex_avail)) (ex_list [0x1000] 0x1000\<lparr>shutDownFlag := 1\<rparr>),
     sy_thr := (\<lambda>_. TIdle)(2 := TSleep 0x1000, 3 := TClearSleep 0x1000 None)\<rparr>"

definition run_given :: bsys where
  "run_given = run_clearing\<lparr>
     sy_mem := run_mem [Sync (Wake_up 0x500)] (Some (release (reserve ex_avail)))
       (ex_list [0x1000] 0x1000\<lparr>shutDownFlag := 1\<rparr>),
     sy_own := (\<lambda>_. None)\<rparr>"

lemmas run_defs = run_start_def run_appended_def run_taken_def run_waiting_def run_clearing_def
  run_given_def run_mem_def ex_list_def

lemma run_fields [simp]:
  "k_blist (run_mem log buf l) 0x500 = Some l" "k_buf (run_mem log buf l) 0x1000 = buf"
  "k_dev (run_mem log buf l) 0x100 = Some (zero_dev\<lparr>pcieuni_pci_dev := 0x80\<rparr>)"
  "(run_mem log buf l)\<lparr>k_blist := (k_blist (run_mem log buf l))(0x500 \<mapsto> l')\<rparr> = run_mem log buf l'"
  "(run_mem log buf l)\<lparr>k_buf := (k_buf (run_mem log buf l))(0x1000 \<mapsto> b)\<rparr> = run_mem log (Some b) l"
  by (simp_all add: run_mem_def ex_bst_def fun_eq_iff)

lemma reach_taken: "bl_reach env 0x500 run_taken"
proof -
  have "bl_reach env 0x500 run_start"
    by (rule bl_reach.start) (auto simp: bl_start_def run_defs pcieuni_bufferList_init_def upd_bl_eq_Inr
        intro!: exI [of _ "0x100"] exI [of _ "sy_mem run_start"])
  moreover have "bl_step env 0x500 run_start 1 AOther run_appended"
    unfolding run_appended_def
    by (rule bl_step.append [where p = "0x1000" and l = "ex_list [] 0" and b = ex_avail])
      (simp_all add: run_start_def append_result ex_list_def)
  moreover have "gf_enter 0x500 (sy_mem run_appended) =
      Inr (GfGot 0x1000, run_mem [] (Some (reserve ex_avail)) (ex_list [0x1000] 0x1000))"
    by (simp add: gf_enter_def gf_try_def km_simps run_appended_def ex_list_def reserve_result ring_succ_def)
       (simp add: run_mem_def)
  then have "bl_step env 0x500 run_appended 1 (ATake 0x1000) run_taken"
    using bl_step.enter [of run_appended 1 "0x500" "GfGot 0x1000" _ env]
    by (simp add: gf_action_def gf_after_def run_taken_def) (simp add: run_defs fun_upd_idem)
  ultimately show ?thesis by (blast intro: bl_reach.step)
qed


theorem buffers_used_exclusively_witness:
  "\<exists>l b. k_blist (sy_mem run_taken) 0x500 = Some l \<and> 0x1000 \<in> set (bl_head l) \<and>
     k_buf (sy_mem run_taken) 0x1000 = Some b \<and> \<not> available b"
  using buffers_used_exclusively [OF reach_taken [of quiet_kernel]] by (simp add: run_taken_def)

lemma reach_clearing: "bl_reach env 0x500 run_clearing"
proof -
  let ?l = "ex_list [0x1000] 0x1000\<lparr>bl_lock := True, shutDownFlag := 1\<rparr>"
  let ?m = "run_mem [] (Some (reserve ex_avail)) ?l"
  let ?S = "run_waiting\<lparr>sy_mem := ?m, sy_thr := (sy_thr run_waiting)(3 := TClear 0x1000 None 1)\<rparr>"
  have "gf_enter 0x500 (sy_mem run_taken) = Inr (GfSleep 0x1000, sy_mem run_taken)"
    by (simp add: gf_enter_def gf_try_def km_simps run_taken_def ex_list_def)
  then have "bl_step env 0x500 run_taken 2 AOther run_waiting"
    using bl_step.enter [of run_taken 2 "0x500" "GfSleep 0x1000" _ env]
    by (simp add: gf_action_def gf_after_def run_waiting_def) (simp add: run_defs)
  moreover have "clear_begin 0x500 (sy_mem run_waiting) = Inr (TClear 0x1000 None 1, ?m)"
    by (simp add: clear_begin_def clear_at_def km_simps run_waiting_def run_taken_def ex_list_def)
  then have "bl_step env 0x500 run_waiting 3 AOther ?S"
    by (intro bl_step.clear_start [where l = "ex_list [0x1000] 0x1000"])
       (simp_all add: run_waiting_def run_taken_def run_appended_def run_start_def ex_list_def)
  moreover have "bl_step env 0x500 ?S 3 AOther (?S\<lparr>
      sy_mem := run_mem [] (Some (reserve ex_avail)) (?l\<lparr>bl_lock := False\<rparr>),
      sy_thr := (sy_thr ?S)(3 := TClearSleep 0x1000 None)\<rparr>)"
    by (rule bl_step.clear_block [where code = 1 and b = "reserve ex_avail"]) (simp_all add: km_simps)
  moreover have "?S\<lparr>sy_mem := run_mem [] (Some (reserve ex_avail)) (?l\<lparr>bl_lock := False\<rparr>),
      sy_thr := (sy_thr ?S)(3 := TClearSleep 0x1000 None)\<rparr> = run_clearing"
    by (simp add: run_clearing_def run_waiting_def ex_list_def)
  ultimately show ?thesis using reach_taken by (metis bl_reach.step)
qed

text \<open>The buffer is back and thread 3 has woken, with the lock held.\<close>

definition run_awake :: bsys where
  "run_awake = run_given\<lparr>
     sy_mem := run_mem [Sync (Wait_event_timeout 0x500 100), Sync (Wake_up 0x500)]
       (Some (release (reserve ex_avail))) (ex_list [0x1000] 0x1000\<lparr>shutDownFlag := 1, bl_lock := True\<rparr>),
     sy_thr := (sy_thr run_given)(3 := TClear 0x1000 None 100)\<rparr>"

lemma reach_awake: "bl_reach env 0x500 run_awake"
proof -
  have "pcieuni_bufferList_set_free 0x500 0x1000 (sy_mem run_clearing) = Inr ((), sy_mem run_given)"
    by (simp add: set_free_result run_clearing_def run_given_def ex_list_def)
       (simp add: run_mem_def log_add_def ex_bst_def)
  then have "bl_step env 0x500 run_clearing 1 (AGive 0x1000)
      (run_clearing\<lparr>sy_mem := sy_mem run_given, sy_own := (sy_own run_clearing)(0x1000 := None)\<rparr>)"
    by (intro bl_step.give) (simp_all add: run_defs)
  moreover have "run_clearing\<lparr>sy_mem := sy_mem run_given, sy_own := (sy_own run_clearing)(0x1000 := None)\<rparr> = run_given"
    by (simp add: run_defs)
  moreover have "kseq (log_call (Sync (Wait_event_timeout 0x500 100))) (spin_lock 0x500) (sy_mem run_given) =
      Inr ((), sy_mem run_awake)"
    by (simp add: km_simps run_given_def run_awake_def ex_list_def) (simp add: run_mem_def log_add_def ex_bst_def)
  then have "bl_step env 0x500 run_given 3 AOther
      (run_given\<lparr>sy_mem := sy_mem run_awake, sy_thr := (sy_thr run_given)(3 := TClear 0x1000 None 100)\<rparr>)"
    by (intro bl_step.clear_wake) (simp_all add: run_defs)
  moreover have "run_given\<lparr>sy_mem := sy_mem run_awake, sy_thr := (sy_thr run_given)(3 := TClear 0x1000 None 100)\<rparr> = run_awake"
    by (simp add: run_awake_def)
  ultimately show ?thesis using reach_clearing by (metis bl_reach.step)
qed


lemma awake_destroys:
  "\<exists>m. clear_remove quiet_kernel 0x500 0x1000 None 100 (sy_mem run_awake) = Inr (TIdle, m) \<and> k_buf m 0x1000 = None"
proof -
  let ?b = "release (reserve ex_avail)"
  have made: "buffer_made quiet_kernel ?b"
    by (simp add: buffer_made_def release_def reserve_def ex_avail_def ex_buffer_def size_fits_def
        buffer_size_def quiet_kernel_def)
  have "sint (100 :: c_int) = 100" by simp
  then show ?thesis
    by (simp add: clear_remove_def clear_unlink_def clear_at_def km_simps run_awake_def ex_list_def
        destroy_run [OF _ _ made])
qed

theorem clear_spares_used_buffers_witness: "sy_own run_awake 0x1000 = None"
proof -
  from awake_destroys obtain m where
    m: "clear_remove quiet_kernel 0x500 0x1000 None 100 (sy_mem run_awake) = Inr (TIdle, m)" by blast
  have "bl_step quiet_kernel 0x500 run_awake 3 (ADestroy 0x1000)
      (run_awake\<lparr>sy_mem := m, sy_thr := (sy_thr run_awake)(3 := TIdle)\<rparr>)"
    by (rule bl_step.clear_done [OF _ _ _ m, where b = "release (reserve ex_avail)"])
       (simp_all add: run_awake_def)
  then show ?thesis by (rule clear_spares_used_buffers [OF reach_awake])
qed

text \<open>
  C36: a thread may be asleep in \<open>get_free\<close> for a buffer that \<open>clear\<close> has destroyed: when it wakes,
  the condition of its wait reads the state of a freed buffer. Giving the buffer back wakes both
  the thread that waits for it and the one that clears the list, and the latter may run first.
\<close>

theorem waiter_outlives_buffer:
  "\<exists>S. bl_reach quiet_kernel 0x500 S \<and> sy_thr S 2 = TSleep 0x1000 \<and> k_buf (sy_mem S) 0x1000 = None"
proof -
  from awake_destroys obtain m where
    m: "clear_remove quiet_kernel 0x500 0x1000 None 100 (sy_mem run_awake) = Inr (TIdle, m)" "k_buf m 0x1000 = None"
    by blast
  let ?S = "run_awake\<lparr>sy_mem := m, sy_thr := (sy_thr run_awake)(3 := TIdle)\<rparr>"
  have "bl_step quiet_kernel 0x500 run_awake 3 (ADestroy 0x1000) ?S"
    by (rule bl_step.clear_done [OF _ _ _ m(1), where b = "release (reserve ex_avail)"])
       (simp_all add: run_awake_def)
  then have "bl_reach quiet_kernel 0x500 ?S" by (rule bl_reach.step [OF reach_awake])
  then show ?thesis using m(2) by (intro exI [of _ ?S]) (simp add: run_awake_def run_given_def run_clearing_def)
qed

end
