(* ===== verification/Format_Names.thy ===== *)
theory Format_Names
  imports Device_Data
begin

text \<open>
  The conversions \<open>%i\<close>, \<open>%d\<close> and \<open>%X\<close> of \<open>sprintf\<close> and \<open>seq_printf\<close> as far as the driver uses them,
  and \<open>sprintf\<close> into an array of fixed size, which overflows when the text and its terminating
  zero do not fit. A conversion loses nothing: the number is read back from its digits.
\<close>

section \<open>Digits\<close>

definition digit_char :: "nat \<Rightarrow> char" where
  "digit_char d = char_of (if d < 10 then 48 + d else 55 + d)"

definition digit_val :: "char \<Rightarrow> nat" where
  "digit_val c = (if of_char c < (58 :: nat) then of_char c - 48 else of_char c - 55)"

function digits :: "nat \<Rightarrow> nat \<Rightarrow> string" where
  "digits b n = (if b < 2 \<or> n < b then [digit_char n] else digits b (n div b) @ [digit_char (n mod b)])"
  by pat_completeness auto
termination by (relation "measure snd") auto

declare digits.simps [simp del]

definition undigits :: "nat \<Rightarrow> string \<Rightarrow> nat" where
  "undigits b cs = foldl (\<lambda>n c. n * b + digit_val c) 0 cs"

definition fmt_X :: "u32 \<Rightarrow> string" where
  "fmt_X w = digits 16 (unat w)"

definition fmt_i :: "c_int \<Rightarrow> string" where
  "fmt_i w = (if sint w < 0 then CHR ''-'' # digits 10 (nat (- sint w)) else digits 10 (nat (sint w)))"

text \<open>\<open>sprintf\<close> of a text into \<open>char[n]\<close>.\<close>

definition sprintf_to :: "nat \<Rightarrow> string \<Rightarrow> ('s, string) km" where
  "sprintf_to n txt = (if length txt < n then kret txt else kfail BufOverflow)"

section \<open>Reading back\<close>

lemma digit_val_char: "d < 16 \<Longrightarrow> digit_val (digit_char d) = d"
  by (simp add: digit_val_def digit_char_def)

lemma undigits_digits:
  assumes "2 \<le> b" "b \<le> 16"
  shows "undigits b (digits b n) = n"
  using assms
proof (induction b n rule: digits.induct)
  case (1 b n)
  show ?case
  proof (cases "n < b")
    case True
    then show ?thesis using 1(2,3) by (subst digits.simps) (simp add: undigits_def digit_val_char)
  next
    case False
    then have "undigits b (digits b n) = undigits b (digits b (n div b)) * b + digit_val (digit_char (n mod b))"
      using 1(2) by (subst digits.simps) (simp add: undigits_def)
    moreover have "n mod b < 16" using 1(2,3) by (intro less_le_trans [OF mod_less_divisor]) auto
    ultimately show ?thesis using 1 False by (simp add: digit_val_char)
  qed
qed

lemma digits_no_minus:
  assumes "2 \<le> b" "b \<le> 16"
  shows "digits b n \<noteq> [] \<and> hd (digits b n) \<noteq> CHR ''-''"
  using assms
proof (induction b n rule: digits.induct)
  case (1 b n)
  have no: "digit_char d \<noteq> CHR ''-''" if "d < 16" for d
  proof
    assume "digit_char d = CHR ''-''"
    then have "(of_char (digit_char d) :: nat) = 45" by simp
    then show False using that by (auto simp: digit_char_def split: if_splits)
  qed
  show ?case
  proof (cases "n < b")
    case True
    then show ?thesis using 1(2,3) no [of n] by (simp add: digits.simps [of b n])
  next
    case False
    then show ?thesis using 1 by (simp add: digits.simps [of b n])
  qed
qed

lemma length_digits: "2 \<le> b \<Longrightarrow> n < b ^ k \<Longrightarrow> 0 < k \<Longrightarrow> length (digits b n) \<le> k"
proof (induction k arbitrary: n)
  case (Suc k)
  show ?case
  proof (cases "n < b")
    case False
    then have "0 < k" using Suc.prems(2) by (cases k) auto
    moreover have "n div b < b ^ k"
      using Suc.prems by (simp add: less_mult_imp_div_less mult.commute)
    ultimately show ?thesis using Suc False by (subst digits.simps) simp
  qed (use Suc.prems in \<open>subst digits.simps, simp\<close>)
qed simp

lemma fmt_X_inj: "fmt_X v = fmt_X w \<Longrightarrow> v = w"
proof -
  assume "fmt_X v = fmt_X w"
  then have "unat v = unat w" by (metis fmt_X_def undigits_digits numeral_le_iff semiring_norm(68,69,71) order_refl)
  then show "v = w" by (rule unsigned_word_eqI)
qed

lemma fmt_i_inj: "fmt_i v = fmt_i w \<Longrightarrow> v = w"
proof -
  assume a: "fmt_i v = fmt_i w"
  have d: "undigits 10 (digits 10 n) = n" for n by (rule undigits_digits) simp_all
  have m: "hd (digits 10 n) \<noteq> CHR ''-''" for n using digits_no_minus [of 10 n] by simp
  have "sint v < 0 \<longleftrightarrow> sint w < 0"
    using a m by (auto simp: fmt_i_def split: if_splits) (metis list.sel(1))+
  moreover have "nat \<bar>sint v\<bar> = nat \<bar>sint w\<bar>"
    using a calculation d by (auto simp: fmt_i_def split: if_splits) metis+
  ultimately have "sint v = sint w" by linarith
  then show "v = w" by (rule signed_word_eqI)
qed

section \<open>The names the driver makes\<close>

text \<open>\<open>"%ss%d"\<close> of the driver's name and a number.\<close>

definition board_name :: "string \<Rightarrow> c_int \<Rightarrow> string" where
  "board_name dfn num = dfn @ ''s'' @ fmt_i num"

lemma board_name_inj: "board_name dfn v = board_name dfn w \<Longrightarrow> v = w"
  by (simp add: board_name_def fmt_i_inj)

end
