(* ===== verification/Board_Info.thy ===== *)
theory Board_Info
  imports Format_Names Kernel_Resources
begin

text \<open>
  The standard register set of a board: \<open>pcieuni_get_brdinfo\<close> reads the board header at the start of
  BAR 0, \<open>pcieuni_fill_prj_info\<close> one project header, \<open>pcieuni_get_prjinfo\<close> the chain of project
  headers; \<open>pcieuni_procinfo\<close> prints what was found to the proc entry of the board, which
  \<open>register_gpcieuni_proc\<close> and \<open>unregister_gpcieuni_proc\<close> make and remove. \<open>pcieuni_register_write32\<close>
  writes one register and flushes the write.
\<close>

section \<open>Board and project headers\<close>

definition upd_brd :: "ptr \<Rightarrow> (pcieuni_brd_info \<Rightarrow> pcieuni_brd_info) \<Rightarrow> ('z kst_scheme, unit) km" where
  "upd_brd dev f = upd_dev dev (\<lambda>d. d\<lparr>brd_info_list := f (brd_info_list d)\<rparr>)"

definition pcieuni_get_brdinfo :: "kenv \<Rightarrow> ptr \<Rightarrow> ('z kst_scheme, c_int) km" where
  "pcieuni_get_brdinfo env bdev =
     kseq (upd_dev bdev (startup_brd_update (\<lambda>_. 0))) (
     kbind (get_dev bdev) (\<lambda>d.
     kseq (let baddress = memmory_base (bar0 d) in
       kwhen (baddress \<noteq> NULL) (
         kbind (klift (ioread32 env baddress)) (\<lambda>magic.
         kwhen (magic = ASCII_BOARD_MAGIC_NUM \<or> magic = ASCII_BOARD_MAGIC_NUM_L) (
           kseq (upd_dev bdev (startup_brd_update (\<lambda>_. 1))) (
           kbind (klift (ioread32 env (baddress + WORD_BOARD_ID))) (\<lambda>w.
           kseq (upd_brd bdev (PCIEUNI_BOARD_ID_update (\<lambda>_. w))) (
           kbind (klift (ioread32 env (baddress + WORD_BOARD_VERSION))) (\<lambda>w.
           kseq (upd_brd bdev (PCIEUNI_BOARD_VERSION_update (\<lambda>_. w))) (
           kbind (klift (ioread32 env (baddress + WORD_BOARD_DATE))) (\<lambda>w.
           kseq (upd_brd bdev (PCIEUNI_BOARD_DATE_update (\<lambda>_. w))) (
           kbind (klift (ioread32 env (baddress + WORD_BOARD_HW_VERSION))) (\<lambda>w.
           kseq (upd_brd bdev (PCIEUNI_HW_VERSION_update (\<lambda>_. w))) (
           kseq (upd_brd bdev (BRD_PROJ_NEXT_update (\<lambda>_. 0))) (
           kbind (klift (ioread32 env (baddress + WORD_BOARD_TO_PROJ))) (\<lambda>w.
           upd_brd bdev (BRD_PROJ_NEXT_update (\<lambda>_. w))))))))))))))))) (
     kbind (get_dev bdev) (\<lambda>d. kret (startup_brd d)))))"

text \<open>
  The new project structure is linked in front of the list at the end; until then only its
  address matters: the first store through it faults when it is null.
\<close>

definition pcieuni_fill_prj_info :: "kenv \<Rightarrow> ptr \<Rightarrow> ptr \<Rightarrow> ('z kst_scheme, c_int) km" where
  "pcieuni_fill_prj_info env bdev baddress =
     kbind (klift (ioread32 env baddress)) (\<lambda>magic.
     if magic = ASCII_PROJ_MAGIC_NUM then
       kseq (upd_dev bdev (\<lambda>d. d\<lparr>startup_prj_num := startup_prj_num d + 1\<rparr>)) (
       kbind (klift (kzalloc env)) (\<lambda>prj.
       kbind (klift (ioread32 env (baddress + WORD_PROJ_ID))) (\<lambda>prj_id.
       if prj = NULL then kfail NullDeref else
       kbind (klift (ioread32 env (baddress + WORD_PROJ_VERSION))) (\<lambda>prj_version.
       kbind (klift (ioread32 env (baddress + WORD_PROJ_DATE))) (\<lambda>prj_date.
       kbind (klift (ioread32 env (baddress + WORD_PROJ_RESERVED))) (\<lambda>prj_reserved.
       kseq (upd_brd bdev (BRD_PROJ_NEXT_update (\<lambda>_. 0))) (
       kbind (klift (ioread32 env (baddress + WORD_PROJ_NEXT))) (\<lambda>prj_next.
       kseq (upd_dev bdev (\<lambda>d. d\<lparr>prj_info_list :=
               \<lparr>prj_addr = prj, PCIEUNI_PROJ_ID = prj_id, PCIEUNI_PROJ_VERSION = prj_version,
                PCIEUNI_PROJ_DATE = prj_date, PCIEUNI_PROJ_RESERVED = prj_reserved,
                PCIEUNI_PROJ_NEXT = prj_next\<rparr> # prj_info_list d\<rparr>))
       (kret prj_next)))))))))
     else kret 0)"

text \<open>
  The two kinds of loop of \<open>get_prjinfo\<close>: along the chain in BAR 0, and, in the other BARs, at the
  offset \<open>tmp_next_prj1\<close>, which is always 0. The offset is an \<open>int\<close>, so it is sign-extended.
\<close>

partial_function (option) prj_chain ::
  "kenv \<Rightarrow> ptr \<Rightarrow> ptr \<Rightarrow> c_int \<Rightarrow> 'z kst_scheme \<Rightarrow> (kfault + (unit \<times> 'z kst_scheme)) option" where
  "prj_chain env bdev baddress tmp_next_prj s =
     (if tmp_next_prj = 0 then Some (Inr ((), s))
      else (case pcieuni_fill_prj_info env bdev (baddress + scast tmp_next_prj) s of
              Inl e \<Rightarrow> Some (Inl e)
            | Inr (n, s') \<Rightarrow> prj_chain env bdev baddress n s'))"

partial_function (option) prj_in_bar ::
  "kenv \<Rightarrow> ptr \<Rightarrow> ptr \<Rightarrow> c_int \<Rightarrow> 'z kst_scheme \<Rightarrow> (kfault + (unit \<times> 'z kst_scheme)) option" where
  "prj_in_bar env bdev baddress tmp_next_prj s =
     (if tmp_next_prj = 0 then Some (Inr ((), s))
      else (case pcieuni_fill_prj_info env bdev (baddress + 0) s of
              Inl e \<Rightarrow> Some (Inl e)
            | Inr (n, s') \<Rightarrow> prj_in_bar env bdev baddress n s'))"

definition prj_from_bar :: "kenv \<Rightarrow> ptr \<Rightarrow> (pcieuni_dev \<Rightarrow> pcieuni_bar) \<Rightarrow> ('z kst_scheme, unit) km" where
  "prj_from_bar env bdev sel =
     kbind (get_dev bdev) (\<lambda>d.
     kwhen (memmory_base (sel d) \<noteq> NULL) (kloop (prj_in_bar env bdev (memmory_base (sel d)) 1)))"

definition pcieuni_get_prjinfo :: "kenv \<Rightarrow> ptr \<Rightarrow> ('z kst_scheme, c_int) km" where
  "pcieuni_get_prjinfo env bdev =
     kseq (upd_dev bdev (startup_prj_num_update (\<lambda>_. 0))) (
     kbind (get_dev bdev) (\<lambda>d.
     kseq (if BRD_PROJ_NEXT (brd_info_list d) \<noteq> 0 then
             kloop (prj_chain env bdev (memmory_base (bar0 d)) (BRD_PROJ_NEXT (brd_info_list d)))
           else
             kseq (prj_from_bar env bdev bar1) (
             kseq (prj_from_bar env bdev bar2) (
             kseq (prj_from_bar env bdev bar3) (
             kseq (prj_from_bar env bdev bar4) (
             prj_from_bar env bdev bar5))))) (
     kbind (get_dev bdev) (\<lambda>d. kret (startup_prj_num d)))))"

section \<open>The proc entry\<close>

definition register_gpcieuni_proc ::
  "kenv \<Rightarrow> c_int \<Rightarrow> string \<Rightarrow> ptr \<Rightarrow> ptr \<Rightarrow> ('z kst_scheme, unit) km" where
  "register_gpcieuni_proc env num dfn p_upcie_dev p_upcie_cdev =
     kbind (sprintf_to 32 (board_name dfn num)) (\<lambda>prc_entr.
     kbind (kget (\<lambda>s. proc_create_ret env (k_log s))) (\<lambda>entry.
     kseq (log_call (Node (Proc_create prc_entr p_upcie_dev)))
     (upd_cdev p_upcie_cdev (pcieuni_procdir_update (\<lambda>_. entry)))))"

definition unregister_gpcieuni_proc :: "c_int \<Rightarrow> string \<Rightarrow> ('z kst_scheme, unit) km" where
  "unregister_gpcieuni_proc num dfn =
     kbind (sprintf_to 32 (board_name dfn num)) (\<lambda>prc_entr.
     log_call (Node (Proc_remove prc_entr)))"

definition seq_line :: "string \<Rightarrow> string \<Rightarrow> string" where
  "seq_line label value = label @ '':'' @ [CHR 0x09] @ value @ [CHR 0x0A]"

definition prj_lines :: "pcieuni_prj_info \<Rightarrow> string" where
  "prj_lines p =
     seq_line ''Project ID'' (fmt_X (PCIEUNI_PROJ_ID p)) @
     seq_line ''Project Version'' (fmt_X (PCIEUNI_PROJ_VERSION p)) @
     seq_line ''Project Date'' (fmt_X (PCIEUNI_PROJ_DATE p)) @
     seq_line ''Project Reserved'' (fmt_X (PCIEUNI_PROJ_RESERVED p)) @
     seq_line ''Project Next'' (fmt_X (PCIEUNI_PROJ_NEXT p))"

definition proc_text :: "pcieuni_cdev \<Rightarrow> pcieuni_dev \<Rightarrow> string" where
  "proc_text c d =
     seq_line ''GPCIEUNI Driver Version'' (fmt_i (ucast (GPCIEUNI_VER_MAJ c)) @ ''.'' @ fmt_i (ucast (GPCIEUNI_VER_MIN c))) @
     seq_line ''Driver Version'' (fmt_i (ucast (PCIEUNI_DRV_VER_MAJ c)) @ ''.'' @ fmt_i (ucast (PCIEUNI_DRV_VER_MIN c))) @
     seq_line ''Board NUM'' (fmt_i (brd_num d)) @
     seq_line ''Slot NUM'' (fmt_i (slot_num d)) @
     seq_line ''Board ID'' (fmt_X (PCIEUNI_BOARD_ID (brd_info_list d))) @
     seq_line ''Board Version'' (fmt_X (PCIEUNI_BOARD_VERSION (brd_info_list d))) @
     seq_line ''Board Date'' (fmt_X (PCIEUNI_BOARD_DATE (brd_info_list d))) @
     seq_line ''Board HW Ver'' (fmt_X (PCIEUNI_HW_VERSION (brd_info_list d))) @
     seq_line ''Board Next Prj'' (fmt_X (BRD_PROJ_NEXT (brd_info_list d))) @
     seq_line ''Board Reserved'' (fmt_X (PCIEUNI_BOARD_RESERVED (brd_info_list d))) @
     seq_line ''Number of Proj'' (fmt_i (startup_prj_num d)) @
       concat (map prj_lines (prj_info_list d))"

definition pcieuni_procinfo :: "ptr \<Rightarrow> ('z kst_scheme, string) km" where
  "pcieuni_procinfo dev =
     kbind (get_dev dev) (\<lambda>d.
     kbind (get_cdev (parent_dev d)) (\<lambda>c. kret (proc_text c d)))"

section \<open>Writing one register\<close>

definition pcieuni_register_write32 ::
  "kenv \<Rightarrow> ptr \<Rightarrow> ptr \<Rightarrow> u32 \<Rightarrow> u32 \<Rightarrow> bool \<Rightarrow> ('z kst_scheme, c_int) km" where
  "pcieuni_register_write32 env dev bar_addr ofs value ensureFlush =
     kseq (kmod (iowrite32 value (bar_addr + ucast ofs))) (
     kseq (kwhen ensureFlush (
       kseq (log_call (Io Smp_wmb)) (
       kbind (klift (ioread32 env bar_addr)) (\<lambda>readbackData.
       kseq (log_call (Io Smp_rmb))
       (log_call (Io (Udelay 5)))))))
     (kret 0))"

section \<open>Board and project headers in memory\<close>

text \<open>
  The hypotheses on the kernel: the registers of the header do not change while it is read, and
  the allocator delivers.
\<close>

definition stable_regs :: "kenv \<Rightarrow> (ptr \<Rightarrow> u32) \<Rightarrow> bool" where
  "stable_regs env regs \<longleftrightarrow> (\<forall>l a. ioread32_ret env l a = regs a)"

definition memory_plenty :: "kenv \<Rightarrow> bool" where
  "memory_plenty env \<longleftrightarrow> (\<forall>l. kzalloc_ret env l \<noteq> NULL)"

definition board_magic :: "u32 \<Rightarrow> bool" where
  "board_magic w \<longleftrightarrow> w = ASCII_BOARD_MAGIC_NUM \<or> w = ASCII_BOARD_MAGIC_NUM_L"

definition brd_found :: "(ptr \<Rightarrow> u32) \<Rightarrow> pcieuni_dev \<Rightarrow> bool" where
  "brd_found regs d \<longleftrightarrow> memmory_base (bar0 d) \<noteq> NULL \<and> board_magic (regs (memmory_base (bar0 d)))"

definition brd_header :: "(ptr \<Rightarrow> u32) \<Rightarrow> ptr \<Rightarrow> pcieuni_brd_info \<Rightarrow> pcieuni_brd_info" where
  "brd_header regs a b = b\<lparr>PCIEUNI_BOARD_ID := regs (a + 0x04), PCIEUNI_BOARD_VERSION := regs (a + 0x08),
     PCIEUNI_BOARD_DATE := regs (a + 0x0C), PCIEUNI_HW_VERSION := regs (a + 0x10),
     BRD_PROJ_NEXT := regs (a + 0x18)\<rparr>"

definition prj_header :: "(ptr \<Rightarrow> u32) \<Rightarrow> ptr \<Rightarrow> ptr \<Rightarrow> pcieuni_prj_info" where
  "prj_header regs p a = \<lparr>prj_addr = p, PCIEUNI_PROJ_ID = regs (a + 0x04),
     PCIEUNI_PROJ_VERSION = regs (a + 0x08), PCIEUNI_PROJ_DATE = regs (a + 0x0C),
     PCIEUNI_PROJ_RESERVED = regs (a + 0x10), PCIEUNI_PROJ_NEXT = regs (a + 0x18)\<rparr>"

text \<open>A state in which only one board and the log have changed.\<close>

definition put_dev :: "ptr \<Rightarrow> pcieuni_dev \<Rightarrow> klog \<Rightarrow> 'z kst_scheme \<Rightarrow> 'z kst_scheme" where
  "put_dev p d new s = s\<lparr>k_dev := (k_dev s)(p \<mapsto> d), k_log := new @ k_log s\<rparr>"

lemma put_dev_fields [simp]:
  "k_dev (put_dev p d new s) = (k_dev s)(p \<mapsto> d)" "k_log (put_dev p d new s) = new @ k_log s"
  "k_cdev (put_dev p d new s) = k_cdev s" "k_priv (put_dev p d new s) = k_priv s"
  "k_drvdata (put_dev p d new s) = k_drvdata s"
  by (simp_all add: put_dev_def)

lemma put_dev_put_dev [simp]: "put_dev p d' new' (put_dev p d new s) = put_dev p d' (new' @ new) s"
  by (simp add: put_dev_def)

lemma put_dev_same: "k_dev s p = Some d \<Longrightarrow> put_dev p d [] s = s"
  by (simp add: put_dev_def fun_upd_idem)

lemma put_dev_log: "k_dev s p = Some d \<Longrightarrow> log_add c s = put_dev p d [c] s"
  by (simp add: put_dev_def fun_upd_idem log_add_def)

lemma ioread32_stable: "stable_regs env regs \<Longrightarrow> ioread32 env a s = (regs a, log_add (Io (Ioread32 a (regs a))) s)"
  by (simp add: stable_regs_def ioread32_def Let_def)

lemma kzalloc_run: "kzalloc env s = (kzalloc_ret env (k_log s), log_add (Mem (Kzalloc (kzalloc_ret env (k_log s)))) s)"
  by (simp add: kzalloc_def Let_def)

lemma brdinfo_run:
  assumes "stable_regs env regs" "bdev \<noteq> NULL" "k_dev s bdev = Some d"
  shows "\<exists>r d' new. pcieuni_get_brdinfo env bdev s =
      Inr (r, put_dev bdev d' new s) \<and>
    (if brd_found regs d
     then r = 1 \<and> d' = d\<lparr>startup_brd := 1, brd_info_list := brd_header regs (memmory_base (bar0 d)) (brd_info_list d)\<rparr>
     else r = 0 \<and> d' = d\<lparr>startup_brd := 0\<rparr>) \<and>
    set (io_addrs new) \<subseteq> (\<lambda>ofs. memmory_base (bar0 d) + ofs) ` {0x00, 0x04, 0x08, 0x0C, 0x10, 0x18}"
proof -
  let ?a = "memmory_base (bar0 d)"
  let ?rd = "\<lambda>ofs. Io (Ioread32 (?a + ofs) (regs (?a + ofs)))"
  note run = pcieuni_get_brdinfo_def km_simps Let_def ioread32_stable upd_brd_def
    board_magic_def log_add_def put_dev_def brd_header_def
  consider "brd_found regs d" | "?a = NULL" | "?a \<noteq> NULL" "\<not> board_magic (regs ?a)"
    by (auto simp: brd_found_def)
  then show ?thesis
  proof cases
    case 1
    with assms have "pcieuni_get_brdinfo env bdev s = Inr (1,
        put_dev bdev (d\<lparr>startup_brd := 1, brd_info_list := brd_header regs ?a (brd_info_list d)\<rparr>) (map ?rd [0x18, 0x10, 0x0C, 0x08, 0x04, 0]) s)"
      by (simp add: run brd_found_def)
    then show ?thesis using 1 by (intro exI [of _ 1] exI
        [of _ "d\<lparr>startup_brd := 1, brd_info_list := brd_header regs ?a (brd_info_list d)\<rparr>"]
        exI [of _ "map ?rd [0x18, 0x10, 0x0C, 0x08, 0x04, 0]"]) simp
  next
    case 2
    with assms have "pcieuni_get_brdinfo env bdev s = Inr (0,
        put_dev bdev (d\<lparr>startup_brd := 0\<rparr>) [] s)"
      by (simp add: run)
    then show ?thesis using 2
      by (intro exI [of _ 0] exI [of _ "d\<lparr>startup_brd := 0\<rparr>"] exI [of _ "[]"]) (simp add: brd_found_def)
  next
    case 3
    with assms have "pcieuni_get_brdinfo env bdev s = Inr (0,
        put_dev bdev (d\<lparr>startup_brd := 0\<rparr>) [?rd 0] s)"
      by (simp add: run)
    then show ?thesis using 3
      by (intro exI [of _ 0] exI [of _ "d\<lparr>startup_brd := 0\<rparr>"] exI [of _ "[?rd 0]"]) (simp add: brd_found_def)
  qed
qed

text \<open>
  C29: \<open>get_brdinfo\<close> returns 1 exactly when BAR 0 is mapped and starts with one of the two board magic
  numbers; then the board information holds the registers of the header. Otherwise it returns 0
  and the board information is what it was. It reads only registers of the header.
\<close>

theorem get_brdinfo_reads_header:
  assumes "stable_regs env regs" "bdev \<noteq> NULL" "k_dev s bdev = Some d"
  shows "\<exists>r d' new. pcieuni_get_brdinfo env bdev s =
      Inr (r, put_dev bdev d' new s) \<and>
    (if brd_found regs d
     then r = 1 \<and> d' = d\<lparr>startup_brd := 1, brd_info_list := brd_header regs (memmory_base (bar0 d)) (brd_info_list d)\<rparr>
     else r = 0 \<and> d' = d\<lparr>startup_brd := 0\<rparr>) \<and>
    set (io_addrs new) \<subseteq> (\<lambda>ofs. memmory_base (bar0 d) + ofs) ` {0x00, 0x04, 0x08, 0x0C, 0x10, 0x18}"
  using assms by (rule brdinfo_run)

text \<open>An allocator that delivers another address, never the null pointer, after every call.\<close>

definition next_addr :: "klog \<Rightarrow> ptr" where
  "next_addr l = 0x1000 OR push_bit 13 (of_nat (length l))"

lemma next_addr_neq [simp]: "next_addr l \<noteq> NULL"
  by (simp add: next_addr_def or_eq_0_iff)

text \<open>A register file with a board header at 0xC000 and two projects at the offsets 0x100 and 0x200.\<close>

definition ex_regs :: "ptr \<Rightarrow> u32" where
  "ex_regs = (\<lambda>_. 7)(0xC000 := ASCII_BOARD_MAGIC_NUM, 0xC018 := 0x100,
     0xC100 := ASCII_PROJ_MAGIC_NUM, 0xC118 := 0x200, 0xC200 := ASCII_PROJ_MAGIC_NUM, 0xC218 := 0)"

definition ex_board :: kenv where
  "ex_board = quiet_kernel\<lparr>ioread32_ret := (\<lambda>_. ex_regs), kzalloc_ret := next_addr\<rparr>"

definition ex_brd_dev :: pcieuni_dev where
  "ex_brd_dev = zero_dev\<lparr>bar0 := zero_bar\<lparr>memmory_base := 0xC000\<rparr>\<rparr>"

definition ex_brd_kst :: "pcieuni_dev \<Rightarrow> kst" where
  "ex_brd_kst d = empty_kst\<lparr>k_dev := [0x2000 \<mapsto> d]\<rparr>"

lemma ex_board_env: "stable_regs ex_board ex_regs" "memory_plenty ex_board"
  by (simp_all add: stable_regs_def memory_plenty_def ex_board_def)

theorem get_brdinfo_reads_header_witness:
  "\<exists>t d'. pcieuni_get_brdinfo ex_board 0x2000 (ex_brd_kst ex_brd_dev) = Inr (1, t) \<and> k_dev t 0x2000 = Some d' \<and>
     PCIEUNI_BOARD_ID (brd_info_list d') = 7 \<and> BRD_PROJ_NEXT (brd_info_list d') = 0x100"
  using get_brdinfo_reads_header [OF ex_board_env(1), of "0x2000" "ex_brd_kst ex_brd_dev" ex_brd_dev]
  by (auto simp: ex_brd_kst_def ex_brd_dev_def zero_dev_def board_magic_def ex_regs_def brd_found_def brd_header_def)

text \<open>Linking one project to a board.\<close>

definition add_prj :: "pcieuni_prj_info \<Rightarrow> pcieuni_dev \<Rightarrow> pcieuni_dev" where
  "add_prj p d = d\<lparr>startup_prj_num := startup_prj_num d + 1,
     brd_info_list := brd_info_list d\<lparr>BRD_PROJ_NEXT := 0\<rparr>, prj_info_list := p # prj_info_list d\<rparr>"

lemma fold_add_prj:
  "startup_prj_num (fold add_prj ps d) = startup_prj_num d + of_nat (length ps)"
  "prj_info_list (fold add_prj ps d) = rev ps @ prj_info_list d"
  "ps \<noteq> [] \<Longrightarrow> BRD_PROJ_NEXT (brd_info_list (fold add_prj ps d)) = 0"
  by (induction ps arbitrary: d) (auto simp: add_prj_def algebra_simps, case_tac "ps = []", auto)

lemma fill_prj_alloc:
  assumes "stable_regs env regs" "bdev \<noteq> NULL" "k_dev s bdev = Some d" "regs a = ASCII_PROJ_MAGIC_NUM"
    "p = kzalloc_ret env (Io (Ioread32 a ASCII_PROJ_MAGIC_NUM) # k_log s)"
  shows "pcieuni_fill_prj_info env bdev a s = (if p = NULL then Inl NullDeref else
    Inr (regs (a + 0x18), put_dev bdev (add_prj (prj_header regs p a) d)
      (map (\<lambda>ofs. Io (Ioread32 (a + ofs) (regs (a + ofs)))) [0x18, 0x10, 0x0C, 0x08, 0x04] @
        [Mem (Kzalloc p), Io (Ioread32 a ASCII_PROJ_MAGIC_NUM)]) s))"
  using assms(1-4)
  by (simp add: pcieuni_fill_prj_info_def km_simps ioread32_stable kzalloc_run upd_brd_def
      log_add_def put_dev_def prj_header_def add_prj_def assms(5) [symmetric])

lemma fill_prj_found:
  assumes "stable_regs env regs" "memory_plenty env" "bdev \<noteq> NULL" "k_dev s bdev = Some d"
    "regs a = ASCII_PROJ_MAGIC_NUM"
  shows "\<exists>p new. p \<noteq> NULL \<and> pcieuni_fill_prj_info env bdev a s = Inr (regs (a + 0x18),
    put_dev bdev (add_prj (prj_header regs p a) d) new s)"
  using fill_prj_alloc [OF assms(1,3-5) refl] assms(2) by (auto simp: memory_plenty_def)

lemma fill_prj_none:
  assumes "stable_regs env regs" "regs a \<noteq> ASCII_PROJ_MAGIC_NUM"
  shows "pcieuni_fill_prj_info env bdev a s = Inr (0, log_add (Io (Ioread32 a (regs a))) s)"
  using assms by (simp add: pcieuni_fill_prj_info_def km_simps ioread32_stable)

text \<open>
  A chain of projects from the offset \<open>n\<close> on: headers at the offsets of the list, each naming the
  offset of the next; it ends with the offset 0 or with an offset at which there is no header.
\<close>

fun prj_linked :: "(ptr \<Rightarrow> u32) \<Rightarrow> ptr \<Rightarrow> c_int \<Rightarrow> c_int list \<Rightarrow> bool" where
  "prj_linked regs base n [] \<longleftrightarrow> n = 0 \<or> regs (base + scast n) \<noteq> ASCII_PROJ_MAGIC_NUM"
| "prj_linked regs base n (m # ms) \<longleftrightarrow> n = m \<and> m \<noteq> 0 \<and> regs (base + scast m) = ASCII_PROJ_MAGIC_NUM \<and>
     prj_linked regs base (regs (base + scast m + 0x18)) ms"

lemma prj_chain_run:
  assumes "stable_regs env regs" "memory_plenty env" "bdev \<noteq> NULL"
    "k_dev s bdev = Some d" "prj_linked regs base n offs"
  shows "\<exists>ps new. prj_chain env bdev base n s = Some (Inr ((),
      put_dev bdev (fold add_prj ps d) new s)) \<and>
    map (prj_addr_update (\<lambda>_. 0)) ps = map (\<lambda>ofs. prj_header regs 0 (base + scast ofs)) offs"
  using assms(4,5)
proof (induction offs arbitrary: n s d)
  case Nil
  show ?case
  proof (cases "n = 0")
    case True
    with Nil show ?thesis
      by (intro exI [of _ "[]"]) (auto simp: prj_chain.simps put_dev_same intro!: exI [of _ "[]"])
  next
    case False
    let ?rd = "Io (Ioread32 (base + scast n) (regs (base + scast n)))"
    from False Nil assms(1) have "prj_chain env bdev base n s = prj_chain env bdev base 0 (log_add ?rd s)"
      by (subst prj_chain.simps) (simp add: fill_prj_none)
    then show ?thesis using Nil
      by (intro exI [of _ "[]"] exI [of _ "[?rd]"]) (simp add: prj_chain.simps put_dev_log)
  qed
next
  case (Cons m ms)
  let ?a = "base + scast m"
  from fill_prj_found [OF assms(1-3) Cons.prems(1), of ?a] Cons.prems(2) obtain p new where
    fill: "pcieuni_fill_prj_info env bdev ?a s = Inr (regs (?a + 0x18),
      put_dev bdev (add_prj (prj_header regs p ?a) d) new s)"
    (is "_ = Inr (_, ?s)") by auto
  have "prj_chain env bdev base n s = prj_chain env bdev base (regs (?a + 0x18)) ?s"
    using Cons.prems(2) fill by (subst prj_chain.simps) simp
  moreover from Cons.IH [of ?s "add_prj (prj_header regs p ?a) d" "regs (?a + 0x18)"] Cons.prems(2)
  obtain ps new' where
    "prj_chain env bdev base (regs (?a + 0x18)) ?s = Some (Inr ((),
      put_dev bdev (fold add_prj ps (add_prj (prj_header regs p ?a) d)) (new' @ new) s))"
    "map (prj_addr_update (\<lambda>_. 0)) ps = map (\<lambda>ofs. prj_header regs 0 (base + scast ofs)) ms" by auto
  ultimately show ?case
    by (intro exI [of _ "prj_header regs p ?a # ps"] exI [of _ "new' @ new"]) (simp add: prj_header_def)
qed

lemma fold_add_prj_form:
  "\<exists>b. fold add_prj ps d = d\<lparr>startup_prj_num := startup_prj_num d + of_nat (length ps), brd_info_list := b,
      prj_info_list := rev ps @ prj_info_list d\<rparr> \<and> b\<lparr>BRD_PROJ_NEXT := 0\<rparr> = brd_info_list d\<lparr>BRD_PROJ_NEXT := 0\<rparr>"
proof (induction ps arbitrary: d)
  case Nil
  then show ?case by (intro exI [of _ "brd_info_list d"]) simp
next
  case (Cons p ps)
  from Cons [of "add_prj p d"] obtain b where
    "fold add_prj ps (add_prj p d) = (add_prj p d)\<lparr>startup_prj_num := startup_prj_num (add_prj p d) + of_nat (length ps),
      brd_info_list := b, prj_info_list := rev ps @ prj_info_list (add_prj p d)\<rparr>"
    "b\<lparr>BRD_PROJ_NEXT := 0\<rparr> = brd_info_list (add_prj p d)\<lparr>BRD_PROJ_NEXT := 0\<rparr>" by blast
  then show ?case
    by (intro exI [of _ b]) (simp add: add_prj_def [of p d] algebra_simps)
qed

lemma prjinfo_chain_run:
  assumes "stable_regs env regs" "memory_plenty env" "bdev \<noteq> NULL" "k_dev s bdev = Some d"
    "BRD_PROJ_NEXT (brd_info_list d) \<noteq> 0"
    "prj_linked regs (memmory_base (bar0 d)) (BRD_PROJ_NEXT (brd_info_list d)) offs"
  shows "\<exists>ps new. pcieuni_get_prjinfo env bdev s =
      Inr (of_nat (length offs), put_dev bdev (fold add_prj ps (d\<lparr>startup_prj_num := 0\<rparr>)) new s) \<and>
    map (prj_addr_update (\<lambda>_. 0)) ps = map (\<lambda>ofs. prj_header regs 0 (memmory_base (bar0 d) + scast ofs)) offs"
proof -
  let ?d = "d\<lparr>startup_prj_num := 0\<rparr>"
  let ?s = "put_dev bdev ?d [] s"
  from prj_chain_run [OF assms(1-3), of ?s ?d "memmory_base (bar0 d)" "BRD_PROJ_NEXT (brd_info_list d)" offs] assms(6)
  obtain ps new where ps: "prj_chain env bdev (memmory_base (bar0 d)) (BRD_PROJ_NEXT (brd_info_list d)) ?s =
      Some (Inr ((), put_dev bdev (fold add_prj ps ?d) new s))"
    "map (prj_addr_update (\<lambda>_. 0)) ps = map (\<lambda>ofs. prj_header regs 0 (memmory_base (bar0 d) + scast ofs)) offs"
    by auto
  then have "length ps = length offs" by (metis length_map)
  then have "pcieuni_get_prjinfo env bdev s =
      Inr (of_nat (length offs), put_dev bdev (fold add_prj ps ?d) new s)"
    using assms(3-5) ps(1)
    by (simp add: pcieuni_get_prjinfo_def km_simps put_dev_def fold_add_prj)
  with ps(2) show ?thesis by blast
qed

text \<open>A BAR that does not start with a project header adds nothing.\<close>

lemma prj_from_bar_none:
  assumes "stable_regs env regs" "bdev \<noteq> NULL" "k_dev s bdev = Some d"
    "memmory_base (sel d) = NULL \<or> regs (memmory_base (sel d)) \<noteq> ASCII_PROJ_MAGIC_NUM"
  shows "\<exists>new. prj_from_bar env bdev sel s = Inr ((), put_dev bdev d new s)"
proof (cases "memmory_base (sel d) = NULL")
  case True
  then show ?thesis using assms(2,3)
    by (intro exI [of _ "[]"]) (simp add: prj_from_bar_def km_simps put_dev_same)
next
  case False
  let ?a = "memmory_base (sel d)"
  have "prj_in_bar env bdev ?a 1 s = Some (Inr ((), log_add (Io (Ioread32 ?a (regs ?a))) s))"
    using False assms by (simp add: prj_in_bar.simps fill_prj_none)
  then show ?thesis using False assms(2,3)
    by (intro exI [of _ "[Io (Ioread32 ?a (regs ?a))]"]) (simp add: prj_from_bar_def km_simps put_dev_log)
qed

lemma prjinfo_bars_run:
  assumes "stable_regs env regs" "bdev \<noteq> NULL" "k_dev s bdev = Some d" "BRD_PROJ_NEXT (brd_info_list d) = 0"
    "\<forall>b \<in> {bar1 d, bar2 d, bar3 d, bar4 d, bar5 d}. memmory_base b = NULL \<or> regs (memmory_base b) \<noteq> ASCII_PROJ_MAGIC_NUM"
  shows "\<exists>new. pcieuni_get_prjinfo env bdev s = Inr (0, put_dev bdev (d\<lparr>startup_prj_num := 0\<rparr>) new s)"
proof -
  let ?d = "d\<lparr>startup_prj_num := 0\<rparr>"
  have none: "\<exists>new. prj_from_bar env bdev sel (put_dev bdev ?d l s) = Inr ((), put_dev bdev ?d new s)"
    if "sel \<in> {bar1, bar2, bar3, bar4, bar5}" for sel l
    using prj_from_bar_none [OF assms(1,2), of "put_dev bdev ?d l s" ?d sel] that assms(5) by auto
  obtain n1 n2 n3 n4 n5 where
    "prj_from_bar env bdev bar1 (put_dev bdev ?d [] s) = Inr ((), put_dev bdev ?d n1 s)"
    "prj_from_bar env bdev bar2 (put_dev bdev ?d n1 s) = Inr ((), put_dev bdev ?d n2 s)"
    "prj_from_bar env bdev bar3 (put_dev bdev ?d n2 s) = Inr ((), put_dev bdev ?d n3 s)"
    "prj_from_bar env bdev bar4 (put_dev bdev ?d n3 s) = Inr ((), put_dev bdev ?d n4 s)"
    "prj_from_bar env bdev bar5 (put_dev bdev ?d n4 s) = Inr ((), put_dev bdev ?d n5 s)"
    using none by (metis insertI1 insertI2)
  then have "pcieuni_get_prjinfo env bdev s = Inr (0, put_dev bdev ?d n5 s)"
    using assms(2-4) by (simp add: pcieuni_get_prjinfo_def km_simps put_dev_def)
  then show ?thesis by blast
qed

text \<open>
  C28: \<open>get_prjinfo\<close> follows the chain of project headers the board header points to: it returns the
  number of projects, and the project list holds their headers, the last one first, in front of
  what was there. The board's own link is cleared on the way, so what the proc entry shows as
  the next project of the board is 0.
\<close>

theorem get_prjinfo_follows_chain:
  assumes "stable_regs env regs" "memory_plenty env" "bdev \<noteq> NULL" "k_dev s bdev = Some d"
    "BRD_PROJ_NEXT (brd_info_list d) \<noteq> 0"
    "prj_linked regs (memmory_base (bar0 d)) (BRD_PROJ_NEXT (brd_info_list d)) offs"
  shows "\<exists>d' ps new. pcieuni_get_prjinfo env bdev s = Inr (of_nat (length offs), put_dev bdev d' new s) \<and>
    startup_prj_num d' = of_nat (length offs) \<and> prj_info_list d' = rev ps @ prj_info_list d \<and>
    map (prj_addr_update (\<lambda>_. 0)) ps = map (\<lambda>ofs. prj_header regs 0 (memmory_base (bar0 d) + scast ofs)) offs \<and>
    (offs \<noteq> [] \<longrightarrow> BRD_PROJ_NEXT (brd_info_list d') = 0)"
proof -
  from prjinfo_chain_run [OF assms] obtain ps new where
    run: "pcieuni_get_prjinfo env bdev s =
      Inr (of_nat (length offs), put_dev bdev (fold add_prj ps (d\<lparr>startup_prj_num := 0\<rparr>)) new s)"
    and ps: "map (prj_addr_update (\<lambda>_. 0)) ps = map (\<lambda>ofs. prj_header regs 0 (memmory_base (bar0 d) + scast ofs)) offs"
    by blast
  from ps have len: "length ps = length offs" by (metis length_map)
  then have "offs \<noteq> [] \<Longrightarrow> ps \<noteq> []" by auto
  with run ps len show ?thesis
    by (intro exI [of _ "fold add_prj ps (d\<lparr>startup_prj_num := 0\<rparr>)"] exI [of _ ps] exI [of _ new]) (auto simp: fold_add_prj)
qed

theorem get_prjinfo_follows_chain_witness:
  "\<exists>t. pcieuni_get_prjinfo ex_board 0x2000
      (ex_brd_kst (ex_brd_dev\<lparr>brd_info_list := brd_header ex_regs 0xC000 zero_brd_info\<rparr>)) = Inr (2, t)"
  using get_prjinfo_follows_chain [OF ex_board_env, of "0x2000"
      "ex_brd_kst (ex_brd_dev\<lparr>brd_info_list := brd_header ex_regs 0xC000 zero_brd_info\<rparr>)"
      "ex_brd_dev\<lparr>brd_info_list := brd_header ex_regs 0xC000 zero_brd_info\<rparr>" "[0x100, 0x200]"]
  by (auto simp: ex_brd_kst_def ex_brd_dev_def brd_header_def ex_regs_def)

section \<open>Project lists that are never finished\<close>

text \<open>Memory is finite: after a number of objects no more can be had.\<close>

definition memory_bounded :: "kenv \<Rightarrow> nat \<Rightarrow> bool" where
  "memory_bounded env B \<longleftrightarrow> (\<forall>l. B \<le> size (held env l) \<longrightarrow> kzalloc_ret env l = NULL)"

lemma dev_bar_add_prj [simp]: "dev_bar (add_prj p d) = dev_bar d"
  by (simp add: fun_eq_iff dev_bar_def add_prj_def)

text \<open>Reading one header faults, ends the chain, or makes one more object.\<close>

lemma fill_prj_cases:
  assumes "stable_regs env regs" "bdev \<noteq> NULL" "k_dev s bdev = Some d"
  obtains "pcieuni_fill_prj_info env bdev a s = Inl NullDeref" "regs a = ASCII_PROJ_MAGIC_NUM"
  | new where "pcieuni_fill_prj_info env bdev a s = Inr (0, put_dev bdev d new s)" "regs a \<noteq> ASCII_PROJ_MAGIC_NUM"
  | p new where "pcieuni_fill_prj_info env bdev a s = Inr (regs (a + 0x18), put_dev bdev (add_prj p d) new s)"
      "regs a = ASCII_PROJ_MAGIC_NUM" "size (held env (new @ k_log s)) = Suc (size (held env (k_log s)))"
      "\<And>B. memory_bounded env B \<Longrightarrow> size (held env (k_log s)) < B"
proof (cases "regs a = ASCII_PROJ_MAGIC_NUM")
  case False
  with fill_prj_none [OF assms(1) False, of bdev s] put_dev_log [OF assms(3)] that(2) show ?thesis by metis
next
  case True
  let ?l = "Io (Ioread32 a ASCII_PROJ_MAGIC_NUM) # k_log s"
  note run = fill_prj_alloc [OF assms True refl]
  show ?thesis
  proof (cases "kzalloc_ret env ?l = NULL")
    case True
    with run that(1) \<open>regs a = _\<close> show ?thesis by simp
  next
    case False
    have "size (held env (k_log s)) < B" if "memory_bounded env B" for B
      using that False by (auto simp: memory_bounded_def not_le [symmetric] dest: spec [of _ ?l])
    with run False that(3) True show ?thesis by simp
  qed
qed

text \<open>With finite memory both loops end.\<close>

lemma prj_chain_ends:
  assumes "stable_regs env regs" "bdev \<noteq> NULL" "memory_bounded env B" "k_dev s bdev = Some d"
  shows "prj_chain env bdev base n s \<noteq> None"
  using assms(4)
proof (induction "B - size (held env (k_log s))" arbitrary: n s d rule: less_induct)
  case less
  show ?case
  proof (cases "n = 0")
    case False
    from fill_prj_cases [OF assms(1,2) less.prems, of "base + scast n"] show ?thesis
    proof cases
      case (3 p new)
      let ?t = "put_dev bdev (add_prj p d) new s"
      have "B - size (held env (k_log ?t)) < B - size (held env (k_log s))" using 3(3) 3(4) [OF assms(3)] by simp
      from less.hyps [OF this, of "add_prj p d"] False 3(1) show ?thesis by (subst prj_chain.simps) simp
    qed (use False in \<open>simp_all add: prj_chain.simps\<close>)
  qed (simp add: prj_chain.simps)
qed

lemma prj_in_bar_ends:
  assumes "stable_regs env regs" "bdev \<noteq> NULL" "memory_bounded env B" "k_dev s bdev = Some d"
  shows "prj_in_bar env bdev base n s \<noteq> None"
  using assms(4)
proof (induction "B - size (held env (k_log s))" arbitrary: n s d rule: less_induct)
  case less
  show ?case
  proof (cases "n = 0")
    case False
    from fill_prj_cases [OF assms(1,2) less.prems, of base] show ?thesis
    proof cases
      case (3 p new)
      let ?t = "put_dev bdev (add_prj p d) new s"
      have "B - size (held env (k_log ?t)) < B - size (held env (k_log s))" using 3(3) 3(4) [OF assms(3)] by simp
      from less.hyps [OF this, of "add_prj p d"] False 3(1) show ?thesis by (subst prj_in_bar.simps) simp
    qed (use False in \<open>simp_all add: prj_in_bar.simps\<close>)
  qed (simp add: prj_in_bar.simps)
qed

text \<open>The loop along the chain does not come to an end when the offsets it meets form a cycle.\<close>

lemma prj_chain_trap:
  assumes "stable_regs env regs" "bdev \<noteq> NULL" "k_dev s bdev = Some d" "0 \<notin> N" "n \<in> N"
    "\<forall>ofs \<in> N. regs (base + scast ofs) = ASCII_PROJ_MAGIC_NUM \<and> regs (base + scast ofs + 0x18) \<in> N"
    and result: "prj_chain env bdev base n s = Some r"
  shows "r = Inl NullDeref"
proof -
  let ?in = "\<lambda>e b a m u. e = env \<and> b = bdev \<and> a = base \<and> m \<in> N \<and> k_dev u bdev \<noteq> None"
  have "?in env bdev base n s \<longrightarrow> r = Inl NullDeref"
  proof (rule prj_chain.raw_induct [where P = "\<lambda>e b a m u r. ?in e b a m u \<longrightarrow> r = Inl NullDeref", OF _ result],
      intro impI, goal_cases)
    case (1 f e b a m u r)
    then obtain d where "k_dev u bdev = Some d" by blast
    from fill_prj_cases [OF assms(1,2) this, of "base + scast m"] show ?case
    proof cases
      case (3 p new)
      then have "f env bdev base (regs (base + scast m + 0x18)) (put_dev bdev (add_prj p d) new u) = Some r"
        using 1(2,3) assms(4) by (auto split: if_splits)
      from 1(1) [OF this] 1(3) assms(6) show ?thesis by simp
    qed (use 1 assms(4,6) in \<open>auto split: if_splits\<close>)
  qed
  with assms(3,5) show ?thesis by simp
qed

text \<open>The loop over a BAR reads the first header again as long as that has a successor.\<close>

lemma prj_in_bar_trap:
  assumes "stable_regs env regs" "bdev \<noteq> NULL" "k_dev s bdev = Some d" "n \<noteq> 0"
    "regs base = ASCII_PROJ_MAGIC_NUM" "regs (base + 0x18) \<noteq> 0"
    and result: "prj_in_bar env bdev base n s = Some r"
  shows "r = Inl NullDeref"
proof -
  let ?in = "\<lambda>e b a m u. e = env \<and> b = bdev \<and> a = base \<and> m \<noteq> 0 \<and> k_dev u bdev \<noteq> None"
  have "?in env bdev base n s \<longrightarrow> r = Inl NullDeref"
  proof (rule prj_in_bar.raw_induct [where P = "\<lambda>e b a m u r. ?in e b a m u \<longrightarrow> r = Inl NullDeref", OF _ result],
      intro impI, goal_cases)
    case (1 f e b a m u r)
    then obtain d where "k_dev u bdev = Some d" by blast
    from fill_prj_cases [OF assms(1,2) this, of base] show ?case
    proof cases
      case (3 p new)
      then have "f env bdev base (regs (base + 0x18)) (put_dev bdev (add_prj p d) new u) = Some r"
        using 1(2,3) by (auto split: if_splits)
      from 1(1) [OF this] assms(6) show ?thesis by simp
    qed (use 1 assms(5) in \<open>auto split: if_splits\<close>)
  qed
  with assms(3,4) show ?thesis by simp
qed

text \<open>An operation that does not return: it runs for ever or dereferences the null pointer.\<close>

definition stuck :: "kenv \<Rightarrow> kfault + 'a \<Rightarrow> bool" where
  "stuck env r \<longleftrightarrow> r = Inl NullDeref \<or> r = Inl Diverges \<and> (\<forall>B. \<not> memory_bounded env B)"

lemma stuck_kseq: "stuck env (m s) \<Longrightarrow> stuck env (kseq m n s)"
  by (auto simp: stuck_def km_simps)

definition prj_trap :: "(ptr \<Rightarrow> u32) \<Rightarrow> pcieuni_bar \<Rightarrow> bool" where
  "prj_trap regs b \<longleftrightarrow> memmory_base b \<noteq> NULL \<and> regs (memmory_base b) = ASCII_PROJ_MAGIC_NUM \<and>
     regs (memmory_base b + 0x18) \<noteq> 0"

lemma prj_from_bar_cases:
  assumes "stable_regs env regs" "bdev \<noteq> NULL" "k_dev s bdev = Some d"
  obtains "stuck env (prj_from_bar env bdev sel s)"
  | d' new where "prj_from_bar env bdev sel s = Inr ((), put_dev bdev d' new s)" "dev_bar d' = dev_bar d" "\<not> prj_trap regs (sel d)"
proof -
  let ?a = "memmory_base (sel d)"
  have from_bar: "prj_from_bar env bdev sel s = (if ?a = NULL then Inr ((), s) else kloop (prj_in_bar env bdev ?a 1) s)"
    using assms(2,3) by (simp add: prj_from_bar_def km_simps)
  have unfold: "prj_in_bar env bdev ?a 1 s = (case pcieuni_fill_prj_info env bdev ?a s of Inl e \<Rightarrow> Some (Inl e)
      | Inr (n, s') \<Rightarrow> prj_in_bar env bdev ?a n s')" by (subst prj_in_bar.simps) simp
  consider "?a = NULL" | "?a \<noteq> NULL" "prj_trap regs (sel d)" | "?a \<noteq> NULL" "\<not> prj_trap regs (sel d)" by blast
  then show ?thesis
  proof cases
    case 1
    with that(2) [of d "[]"] put_dev_same [OF assms(3)] show ?thesis unfolding from_bar by (simp add: prj_trap_def)
  next
    case 2
    then have "r = Inl NullDeref" if "prj_in_bar env bdev ?a 1 s = Some r" for r
      using prj_in_bar_trap [OF assms _ _ _ that] by (simp add: prj_trap_def)
    then have "stuck env (kloop (prj_in_bar env bdev ?a 1) s)"
      using prj_in_bar_ends [OF assms(1,2) _ assms(3), of _ ?a 1] by (auto simp: stuck_def kloop_def split: option.split)
    with 2 that(1) show ?thesis unfolding from_bar by simp
  next
    case 3
    from fill_prj_cases [OF assms, of ?a] show ?thesis
    proof cases
      case 1
      then have "prj_in_bar env bdev ?a 1 s = Some (Inl NullDeref)" unfolding unfold by simp
      with that(1) 3(1) show ?thesis unfolding from_bar by (simp add: stuck_def km_simps)
    next
      case (2 new)
      then have "prj_in_bar env bdev ?a 1 s = Some (Inr ((), put_dev bdev d new s))"
        unfolding unfold by (simp add: prj_in_bar.simps)
      with that(2) [of d new] 3 show ?thesis unfolding from_bar by (simp add: km_simps)
    next
      case (3 p new)
      with \<open>?a \<noteq> NULL\<close> \<open>\<not> prj_trap regs (sel d)\<close>
      have "prj_in_bar env bdev ?a 1 s = Some (Inr ((), put_dev bdev (add_prj p d) new s))"
        unfolding unfold by (simp add: prj_in_bar.simps prj_trap_def)
      with that(2) [of "add_prj p d" new] \<open>?a \<noteq> NULL\<close> \<open>\<not> prj_trap regs (sel d)\<close> show ?thesis
        unfolding from_bar by (simp add: km_simps)
    qed
  qed
qed

lemma prj_from_bar_seq:
  assumes "stable_regs env regs" "bdev \<noteq> NULL" "k_dev s bdev = Some d" "dev_bar d = D"
    "prj_trap regs (sel d) \<or> (\<forall>t d'. k_dev t bdev = Some d' \<longrightarrow> dev_bar d' = D \<longrightarrow> stuck env (n t))"
  shows "stuck env (kseq (prj_from_bar env bdev sel) n s)"
proof (rule prj_from_bar_cases [OF assms(1-3), of sel])
  fix d' new
  assume "prj_from_bar env bdev sel s = Inr ((), put_dev bdev d' new s)" "dev_bar d' = dev_bar d" "\<not> prj_trap regs (sel d)"
  with assms(4,5) show ?thesis by (simp add: km_simps)
qed (rule stuck_kseq)

lemma dev_bar_nth:
  "dev_bar d' = dev_bar d \<Longrightarrow> bar1 d' = bar1 d \<and> bar2 d' = bar2 d \<and> bar3 d' = bar3 d \<and> bar4 d' = bar4 d \<and> bar5 d' = bar5 d"
  by (auto simp: dev_bar_def fun_eq_iff dest: spec [of _ 1] spec [of _ 2] spec [of _ 3] spec [of _ 4] spec [of _ 5])

lemma prjinfo_bars_stuck:
  assumes "stable_regs env regs" "bdev \<noteq> NULL" "k_dev s bdev = Some d"
    "prj_trap regs (bar1 d) \<or> prj_trap regs (bar2 d) \<or> prj_trap regs (bar3 d) \<or> prj_trap regs (bar4 d) \<or> prj_trap regs (bar5 d)"
  shows "stuck env (kseq (prj_from_bar env bdev bar1) (kseq (prj_from_bar env bdev bar2)
    (kseq (prj_from_bar env bdev bar3) (kseq (prj_from_bar env bdev bar4) (prj_from_bar env bdev bar5)))) s)"
proof -
  let ?b = "prj_from_bar env bdev" and ?t = "\<lambda>sel. prj_trap regs (sel d)"
  note seq = prj_from_bar_seq [OF assms(1,2) _ refl]
  have s5: "stuck env (?b bar5 t)" if "k_dev t bdev = Some d'" "dev_bar d' = dev_bar d" "?t bar5" for t d'
    using that(3) dev_bar_nth [OF that(2)] by (cases rule: prj_from_bar_cases [OF assms(1,2) that(1), of bar5]) simp_all
  have s4: "stuck env (kseq (?b bar4) (?b bar5) t)"
    if "k_dev t bdev = Some d'" "dev_bar d' = dev_bar d" "?t bar4 \<or> ?t bar5" for t d'
    using that(3) dev_bar_nth [OF that(2)] s5 that(2) by (intro seq [OF that(1)]) auto
  have s3: "stuck env (kseq (?b bar3) (kseq (?b bar4) (?b bar5)) t)"
    if "k_dev t bdev = Some d'" "dev_bar d' = dev_bar d" "?t bar3 \<or> ?t bar4 \<or> ?t bar5" for t d'
    using that(3) dev_bar_nth [OF that(2)] s4 that(2) by (intro seq [OF that(1)]) auto
  have s2: "stuck env (kseq (?b bar2) (kseq (?b bar3) (kseq (?b bar4) (?b bar5))) t)"
    if "k_dev t bdev = Some d'" "dev_bar d' = dev_bar d" "?t bar2 \<or> ?t bar3 \<or> ?t bar4 \<or> ?t bar5" for t d'
    using that(3) dev_bar_nth [OF that(2)] s3 that(2) by (intro seq [OF that(1)]) auto
  show ?thesis using assms(4) s2 by (intro seq [OF assms(3)]) auto
qed

text \<open>
  C37: two contents of a device's registers on which \<open>get_prjinfo\<close> never returns: the links of the project
  headers in BAR 0 form a cycle; or the board header has no link to a project, and one of the BARs 1
  to 5 starts with a project header that names a successor, since the loop over a BAR reads the
  first header again and again. Each turn allocates a structure, so the scan runs for ever or, as
  soon as memory runs out, stores through a null pointer; where the number of objects that can be
  held is bounded, it always ends with the null pointer.
\<close>

theorem get_prjinfo_never_returns:
  assumes "stable_regs env regs" "bdev \<noteq> NULL" "k_dev s bdev = Some d"
    "(\<exists>N. BRD_PROJ_NEXT (brd_info_list d) \<in> N \<and> 0 \<notin> N \<and>
       (\<forall>ofs \<in> N. regs (memmory_base (bar0 d) + scast ofs) = ASCII_PROJ_MAGIC_NUM \<and>
          regs (memmory_base (bar0 d) + scast ofs + 0x18) \<in> N)) \<or>
     BRD_PROJ_NEXT (brd_info_list d) = 0 \<and>
       (\<exists>b \<in> {bar1 d, bar2 d, bar3 d, bar4 d, bar5 d}. memmory_base b \<noteq> NULL \<and>
          regs (memmory_base b) = ASCII_PROJ_MAGIC_NUM \<and> regs (memmory_base b + 0x18) \<noteq> 0)"
  shows "(pcieuni_get_prjinfo env bdev s = Inl Diverges \<or> pcieuni_get_prjinfo env bdev s = Inl NullDeref) \<and>
    (\<forall>B. (\<forall>l. B \<le> size (held env l) \<longrightarrow> kzalloc_ret env l = NULL) \<longrightarrow> pcieuni_get_prjinfo env bdev s = Inl NullDeref)"
proof -
  let ?s = "s\<lparr>k_dev := (k_dev s)(bdev \<mapsto> d\<lparr>startup_prj_num := 0\<rparr>)\<rparr>"
  let ?scan = "if BRD_PROJ_NEXT (brd_info_list d) \<noteq> 0 then
      kloop (prj_chain env bdev (memmory_base (bar0 d)) (BRD_PROJ_NEXT (brd_info_list d)))
    else kseq (prj_from_bar env bdev bar1) (kseq (prj_from_bar env bdev bar2)
      (kseq (prj_from_bar env bdev bar3) (kseq (prj_from_bar env bdev bar4) (prj_from_bar env bdev bar5))))"
  have dev: "k_dev ?s bdev = Some (d\<lparr>startup_prj_num := 0\<rparr>)" by simp
  from assms(4) have "stuck env (?scan ?s)"
  proof (elim disjE exE conjE)
    fix N
    assume N: "BRD_PROJ_NEXT (brd_info_list d) \<in> N" "0 \<notin> N"
      "\<forall>ofs \<in> N. regs (memmory_base (bar0 d) + scast ofs) = ASCII_PROJ_MAGIC_NUM \<and>
         regs (memmory_base (bar0 d) + scast ofs + 0x18) \<in> N"
    have "stuck env (kloop (prj_chain env bdev (memmory_base (bar0 d)) (BRD_PROJ_NEXT (brd_info_list d))) ?s)"
      using prj_chain_ends [OF assms(1,2) _ dev, of _ "memmory_base (bar0 d)" "BRD_PROJ_NEXT (brd_info_list d)"]
        prj_chain_trap [OF assms(1,2) dev N(2,1,3)]
      by (auto simp: stuck_def kloop_def split: option.split)
    with N show ?thesis by auto
  next
    assume "BRD_PROJ_NEXT (brd_info_list d) = 0" "\<exists>b \<in> {bar1 d, bar2 d, bar3 d, bar4 d, bar5 d}. memmory_base b \<noteq> NULL \<and>
          regs (memmory_base b) = ASCII_PROJ_MAGIC_NUM \<and> regs (memmory_base b + 0x18) \<noteq> 0"
    with prjinfo_bars_stuck [OF assms(1,2) dev] show ?thesis by (auto simp: prj_trap_def)
  qed
  then have "stuck env (kseq ?scan (kbind (get_dev bdev) (\<lambda>d. kret (startup_prj_num d))) ?s)" by (rule stuck_kseq)
  then have "stuck env (pcieuni_get_prjinfo env bdev s)"
    using assms(2,3) by (simp add: pcieuni_get_prjinfo_def kseq_Inr upd_dev_app kbind_Inr get_dev_app split: if_splits)
  then show ?thesis by (auto simp: stuck_def memory_bounded_def)
qed

text \<open>A kernel with memory for fewer than four objects, and a board with a project header in BAR 3.\<close>

definition ex_small_kernel :: kenv where
  "ex_small_kernel = alloc_kernel\<lparr>ioread32_ret := (\<lambda>_. (\<lambda>_. 7)(0xD000 := ASCII_PROJ_MAGIC_NUM)),
     kzalloc_ret := (\<lambda>l. if 4 \<le> size (held quiet_kernel l) then NULL else first_free l)\<rparr>"

definition ex_small_dev :: pcieuni_dev where
  "ex_small_dev = zero_dev\<lparr>bar1 := zero_bar\<lparr>memmory_base := 0xC000\<rparr>, bar3 := zero_bar\<lparr>memmory_base := 0xD000\<rparr>\<rparr>"

theorem get_prjinfo_never_returns_witness:
  "pcieuni_get_prjinfo ex_small_kernel 0x2000 (ex_brd_kst ex_small_dev) = Inl NullDeref"
proof -
  have "held ex_small_kernel l = held quiet_kernel l" for l
    by (rule held_dma_cong) (simp add: ex_small_kernel_def alloc_kernel_def)
  then have "\<forall>l. 4 \<le> size (held ex_small_kernel l) \<longrightarrow> kzalloc_ret ex_small_kernel l = NULL"
    by (simp add: ex_small_kernel_def)
  moreover have "stable_regs ex_small_kernel ((\<lambda>_. 7)(0xD000 := ASCII_PROJ_MAGIC_NUM))"
    by (simp add: stable_regs_def ex_small_kernel_def)
  ultimately show ?thesis
    using get_prjinfo_never_returns [of ex_small_kernel "(\<lambda>_. 7)(0xD000 := ASCII_PROJ_MAGIC_NUM)" "0x2000" "ex_brd_kst ex_small_dev" ex_small_dev]
    by (auto simp: ex_brd_kst_def ex_small_dev_def zero_dev_def zero_brd_info_def)
qed

section \<open>The proc entry\<close>

lemma digit_char_not_nl: "d < 16 \<Longrightarrow> digit_char d \<noteq> CHR 0x0A"
proof
  assume "d < 16" "digit_char d = CHR 0x0A"
  then have "(of_char (digit_char d) :: nat) = 10" by simp
  with \<open>d < 16\<close> show False by (auto simp: digit_char_def split: if_splits)
qed

lemma digits_no_nl: "2 \<le> b \<Longrightarrow> b \<le> 16 \<Longrightarrow> CHR 0x0A \<notin> set (digits b n)"
proof (induction b n rule: digits.induct)
  case (1 b n)
  have "n mod b < 16" using 1(2,3) by (intro less_le_trans [OF mod_less_divisor]) auto
  with 1 digit_char_not_nl [of n] digit_char_not_nl [of "n mod b"] show ?case
    by (cases "n < b") (auto simp: digits.simps [of b n])
qed

lemma fmt_no_nl [simp]: "CHR 0x0A \<notin> set (fmt_X w)" "CHR 0x0A \<notin> set (fmt_i w)"
  by (simp_all add: fmt_X_def fmt_i_def digits_no_nl)

text \<open>A line ends at its newline, so lines can be told apart.\<close>

lemma line_split:
  assumes "CHR 0x0A \<notin> set v" "CHR 0x0A \<notin> set w"
    "seq_line label v @ rest = seq_line label w @ rest'"
  shows "v = w \<and> rest = rest'"
proof -
  have "v @ [CHR 0x0A] @ rest = w @ [CHR 0x0A] @ rest'" using assms(3) by (simp add: seq_line_def)
  with assms(1,2) show ?thesis
  proof (induction v arbitrary: w)
    case Nil
    then show ?case by (cases w) auto
  next
    case (Cons c v)
    then show ?case by (cases w) auto
  qed
qed

lemma prj_lines_split:
  assumes "prj_lines p @ rest = prj_lines q @ rest'"
  shows "p\<lparr>prj_addr := 0\<rparr> = q\<lparr>prj_addr := 0\<rparr> \<and> rest = rest'"
proof -
  note line = line_split [OF fmt_no_nl(1) fmt_no_nl(1)]
  note l1 = line [OF assms [unfolded prj_lines_def append_assoc]]
  note l2 = line [OF conjunct2 [OF l1]]
  note l3 = line [OF conjunct2 [OF l2]]
  note l4 = line [OF conjunct2 [OF l3]]
  note l5 = line [OF conjunct2 [OF l4]]
  have "PCIEUNI_PROJ_ID p = PCIEUNI_PROJ_ID q" "PCIEUNI_PROJ_VERSION p = PCIEUNI_PROJ_VERSION q"
    "PCIEUNI_PROJ_DATE p = PCIEUNI_PROJ_DATE q" "PCIEUNI_PROJ_RESERVED p = PCIEUNI_PROJ_RESERVED q"
    "PCIEUNI_PROJ_NEXT p = PCIEUNI_PROJ_NEXT q"
    by (rule fmt_X_inj, rule conjunct1, rule l1 l2 l3 l4 l5)+
  with conjunct2 [OF l5] show ?thesis by (cases p; cases q) simp
qed

lemma prj_lines_list:
  "concat (map prj_lines ps) = concat (map prj_lines qs) \<Longrightarrow>
   map (prj_addr_update (\<lambda>_. 0)) ps = map (prj_addr_update (\<lambda>_. 0)) qs"
proof (induction ps arbitrary: qs)
  case Nil
  then show ?case by (cases qs) (auto simp: prj_lines_def seq_line_def)
next
  case (Cons p ps)
  then obtain q qs' where qs: "qs = q # qs'" by (cases qs) (auto simp: prj_lines_def seq_line_def)
  with Cons.prems have "prj_lines p @ concat (map prj_lines ps) = prj_lines q @ concat (map prj_lines qs')" by simp
  from prj_lines_split [OF this] Cons.IH qs show ?case by simp
qed

definition proc_fields :: "pcieuni_dev \<Rightarrow> c_int \<times> c_int \<times> pcieuni_brd_info \<times> c_int \<times> pcieuni_prj_info list" where
  "proc_fields d = (brd_num d, slot_num d, brd_info_list d, startup_prj_num d,
     map (prj_addr_update (\<lambda>_. 0)) (prj_info_list d))"

text \<open>
  C30: the text of the proc entry determines what the driver knows of a board: the number and the
  slot of the board, the board information, the number of projects and every project.
\<close>

theorem procinfo_determines_board:
  assumes "dev \<noteq> NULL" "k_dev s dev = Some d" "dev' \<noteq> NULL" "k_dev s' dev' = Some d'"
    "pcieuni_procinfo dev s = Inr (out, s)" "pcieuni_procinfo dev' s' = Inr (out, s')"
  shows "proc_fields d = proc_fields d'"
proof -
  obtain c c' where "out = proc_text c d" "out = proc_text c' d'"
    using assms by (auto simp: pcieuni_procinfo_def kbind_eq_Inr get_dev_eq_Inr get_cdev_eq_Inr kret_app)
  then have same: "proc_text c d = proc_text c' d'" by simp
  have ver: "CHR 0x0A \<notin> set (fmt_i a @ ''.'' @ fmt_i b)" for a b by simp
  note X = line_split [OF fmt_no_nl(1) fmt_no_nl(1)] and I = line_split [OF fmt_no_nl(2) fmt_no_nl(2)]
  note v1 = line_split [OF ver ver same [unfolded proc_text_def append_assoc]]
  note v2 = line_split [OF ver ver conjunct2 [OF v1]]
  note l1 = I [OF conjunct2 [OF v2]] note l2 = I [OF conjunct2 [OF l1]]
  note l3 = X [OF conjunct2 [OF l2]] note l4 = X [OF conjunct2 [OF l3]]
  note l5 = X [OF conjunct2 [OF l4]] note l6 = X [OF conjunct2 [OF l5]]
  note l7 = X [OF conjunct2 [OF l6]] note l8 = X [OF conjunct2 [OF l7]]
  note l9 = I [OF conjunct2 [OF l8]]
  have "PCIEUNI_BOARD_ID (brd_info_list d) = PCIEUNI_BOARD_ID (brd_info_list d')"
    "PCIEUNI_BOARD_VERSION (brd_info_list d) = PCIEUNI_BOARD_VERSION (brd_info_list d')"
    "PCIEUNI_BOARD_DATE (brd_info_list d) = PCIEUNI_BOARD_DATE (brd_info_list d')"
    "PCIEUNI_HW_VERSION (brd_info_list d) = PCIEUNI_HW_VERSION (brd_info_list d')"
    "BRD_PROJ_NEXT (brd_info_list d) = BRD_PROJ_NEXT (brd_info_list d')"
    "PCIEUNI_BOARD_RESERVED (brd_info_list d) = PCIEUNI_BOARD_RESERVED (brd_info_list d')"
    by (rule fmt_X_inj, rule conjunct1, rule l3 l4 l5 l6 l7 l8)+
  then have "brd_info_list d = brd_info_list d'"
    by (cases "brd_info_list d"; cases "brd_info_list d'") simp
  moreover have "brd_num d = brd_num d'" "slot_num d = slot_num d'" "startup_prj_num d = startup_prj_num d'"
    by (rule fmt_i_inj, rule conjunct1, rule l1 l2 l9)+
  moreover note prj_lines_list [OF conjunct2 [OF l9]]
  ultimately show ?thesis by (simp add: proc_fields_def)
qed

definition ex_proc_kst :: kst where
  "ex_proc_kst = empty_kst\<lparr>k_dev := [0x2000 \<mapsto> zero_dev\<lparr>parent_dev := 0x300\<rparr>,
     0x2100 \<mapsto> zero_dev\<lparr>parent_dev := 0x300, vendor_id := 0x10EE\<rparr>], k_cdev := [0x300 \<mapsto> zero_cdev]\<rparr>"

theorem procinfo_determines_board_witness:
  "proc_fields (zero_dev\<lparr>parent_dev := 0x300\<rparr>) =
   proc_fields (zero_dev\<lparr>parent_dev := 0x300, vendor_id := 0x10EE\<rparr>)"
  by (rule procinfo_determines_board [where dev = "0x2000" and s = ex_proc_kst and dev' = "0x2100" and s' = ex_proc_kst
        and out = "fst (projr (pcieuni_procinfo 0x2000 ex_proc_kst))"])
     (simp_all add: pcieuni_procinfo_def km_simps ex_proc_kst_def zero_dev_def proc_text_def)

lemma board_name_length:
  assumes "length dfn \<le> 26" "0 \<le> sint num" "sint num < 8192"
  shows "length (board_name dfn num) < 32"
proof -
  have "length (digits 10 (nat (sint num))) \<le> 4"
    using assms(2,3) by (intro length_digits) auto
  then show ?thesis using assms(1,2) by (simp add: board_name_def fmt_i_def)
qed

text \<open>
  C31: registering and unregistering the proc entry of a board use the same name, and boards with
  different numbers have different names. A name of fewer than 32 characters is registered and
  removed; a longer one overflows the array of 32 characters in both operations. The name fits
  whenever the driver's name has at most 26 characters and the number is between 0 and 8191, which
  the slot number of a board, a field of 13 bits, always is.
\<close>

theorem proc_entry_names:
  assumes "p_cdev \<noteq> NULL" "k_cdev s p_cdev = Some c"
  shows "(if length (board_name dfn num) < 32
     then register_gpcieuni_proc env num dfn dev p_cdev s =
         Inr ((), (log_add (Node (Proc_create (board_name dfn num) dev)) s)\<lparr>k_cdev :=
           (k_cdev s)(p_cdev \<mapsto> c\<lparr>pcieuni_procdir := proc_create_ret env (k_log s)\<rparr>)\<rparr>) \<and>
       unregister_gpcieuni_proc num dfn s = Inr ((), log_add (Node (Proc_remove (board_name dfn num))) s)
     else register_gpcieuni_proc env num dfn dev p_cdev s = Inl BufOverflow \<and>
       unregister_gpcieuni_proc num dfn s = Inl BufOverflow) \<and>
    (\<forall>num'. board_name dfn num' = board_name dfn num \<longrightarrow> num' = num) \<and>
    (length dfn \<le> 26 \<and> 0 \<le> sint num \<and> sint num < 8192 \<longrightarrow> length (board_name dfn num) < 32)"
proof (intro conjI allI impI)
  show "board_name dfn num' = board_name dfn num \<Longrightarrow> num' = num" for num' by (rule board_name_inj)
  show "length dfn \<le> 26 \<and> 0 \<le> sint num \<and> sint num < 8192 \<Longrightarrow> length (board_name dfn num) < 32"
    by (elim conjE) (rule board_name_length)
qed (use assms in \<open>simp add: register_gpcieuni_proc_def unregister_gpcieuni_proc_def sprintf_to_def km_simps\<close>)

theorem proc_entry_names_witness:
  "unregister_gpcieuni_proc 12 ''pcieuni'' ex_proc_kst =
     Inr ((), log_add (Node (Proc_remove ''pcieunis12'')) ex_proc_kst)"
proof -
  have name: "board_name ''pcieuni'' 12 = ''pcieunis12''"
    by (simp add: board_name_def fmt_i_def digits.simps digit_char_def) code_simp
  have "k_cdev ex_proc_kst 0x300 = Some zero_cdev" by (simp add: ex_proc_kst_def)
  from proc_entry_names [THEN conjunct1, of "0x300" ex_proc_kst zero_cdev "''pcieuni''" 12, OF _ this]
  have "unregister_gpcieuni_proc 12 ''pcieuni'' ex_proc_kst =
    Inr ((), log_add (Node (Proc_remove (board_name ''pcieuni'' 12))) ex_proc_kst)" using name by simp
  with name show ?thesis by simp
qed

section \<open>Flushing a register write\<close>

text \<open>
  \<open>register_write32\<close> always returns 0. It writes the value to the register at the offset in the
  BAR; with \<open>ensureFlush\<close> the write is followed by a write barrier, a read of the first register of
  the BAR, a read barrier and a delay, in this order; without it by nothing.
\<close>

theorem register_write32_order:
  "pcieuni_register_write32 env dev a ofs v flush s =
     (let l = Io (Iowrite32 v (a + ucast ofs)) # k_log s;
          w = ioread32_ret env (Io Smp_wmb # l) a
      in Inr (0, s\<lparr>k_log := (if flush then [Io (Udelay 5), Io Smp_rmb, Io (Ioread32 a w), Io Smp_wmb] else []) @ l\<rparr>))"
  by (cases flush) (simp_all add: pcieuni_register_write32_def km_simps iowrite32_def ioread32_def
      Let_def log_add_def)

end
