(* ===== verification/File_Ops.thy ===== *)
theory File_Ops
  imports Board_Info
begin

text \<open>
  \<open>pcieuni_open_exp\<close> and \<open>pcieuni_release_exp\<close>: every open file of a board is an entry of the board's
  list of files, and the board counts them. The contract between a table of files and its users
  is the locale \<open>file_table\<close>, interpreted for the two operations; what follows from it for every
  sequence of opens and closes is proved once, in the locale.
\<close>

section \<open>The operations\<close>

text \<open>The inode gives the board (\<open>container_of\<close> of its character device) and the minor number.\<close>

definition pcieuni_open_exp :: "kenv \<Rightarrow> ptr \<Rightarrow> c_int \<Rightarrow> ptr \<Rightarrow> ('z kst_scheme, c_int) km" where
  "pcieuni_open_exp env dev minor filp =
     kseq (upd_dev dev (dev_minor_update (\<lambda>_. minor))) (
     kbind (mutex_lock_interruptible env dev) (\<lambda>interrupted.
     if interrupted then kret (- ERESTARTSYS)
     else
       kseq (upd_dev dev (\<lambda>d. d\<lparr>dev_file_ref := dev_file_ref d + 1\<rparr>)) (
       kseq (kmod (\<lambda>s. s\<lparr>k_priv := (k_priv s)(filp := dev)\<rparr>)) (
       kbind (klift (kzalloc env)) (\<lambda>tmp_file_list.
       if tmp_file_list = NULL then kfail NullDeref
       else
         kseq (upd_dev dev (\<lambda>d. d\<lparr>dev_file_list :=
                 \<lparr>fl_addr = tmp_file_list, fl_filp = filp, fl_file_cnt = dev_file_ref d\<rparr> # dev_file_list d\<rparr>)) (
         kseq (mutex_unlock dev)
         (kret 0)))))))"

fun kfree_each :: "ptr list \<Rightarrow> ('z kst_scheme, unit) km" where
  "kfree_each [] = kret ()"
| "kfree_each (p # ps) = kseq (log_call (Mem (Kfree p))) (kfree_each ps)"

definition pcieuni_release_exp :: "kenv \<Rightarrow> ptr \<Rightarrow> ('z kst_scheme, c_int) km" where
  "pcieuni_release_exp env filp =
     kbind (kget (\<lambda>s. k_priv s filp)) (\<lambda>dev.
     kbind (mutex_lock_interruptible env dev) (\<lambda>interrupted.
     if interrupted then kret (- ERESTARTSYS)
     else
       kseq (upd_dev dev (\<lambda>d. d\<lparr>dev_file_ref := dev_file_ref d - 1\<rparr>)) (
       kbind (get_dev dev) (\<lambda>d.
       kseq (upd_dev dev (\<lambda>d. d\<lparr>dev_file_list := filter (\<lambda>f. fl_filp f \<noteq> filp) (dev_file_list d)\<rparr>)) (
       kseq (kfree_each (map fl_addr (filter (\<lambda>f. fl_filp f = filp) (dev_file_list d)))) (
       kseq (mutex_unlock dev)
       (kret 0)))))))"

section \<open>Sequences of opens and closes\<close>

datatype fop = FOpen ptr | FClose ptr

text \<open>What a sequence does to the list of open files: a file is opened once and closed while open.\<close>

fun fop_files :: "fop list \<Rightarrow> ptr list \<Rightarrow> ptr list option" where
  "fop_files [] fs = Some fs"
| "fop_files (FOpen f # ops) fs = (if f \<in> set fs then None else fop_files ops (f # fs))"
| "fop_files (FClose f # ops) fs = (if f \<in> set fs then fop_files ops (remove1 f fs) else None)"

fun fop_run :: "(ptr \<Rightarrow> 's \<Rightarrow> 's option) \<Rightarrow> (ptr \<Rightarrow> 's \<Rightarrow> 's option) \<Rightarrow> fop list \<Rightarrow> 's \<Rightarrow> 's option" where
  "fop_run fopen fclose [] s = Some s"
| "fop_run fopen fclose (FOpen f # ops) s =
     (case fopen f s of None \<Rightarrow> None | Some t \<Rightarrow> fop_run fopen fclose ops t)"
| "fop_run fopen fclose (FClose f # ops) s =
     (case fclose f s of None \<Rightarrow> None | Some t \<Rightarrow> fop_run fopen fclose ops t)"

locale file_table =
  fixes inv :: "'s \<Rightarrow> bool"
    and files :: "'s \<Rightarrow> ptr list"
    and refs :: "'s \<Rightarrow> c_int"
    and fopen :: "ptr \<Rightarrow> 's \<Rightarrow> 's option"
    and fclose :: "ptr \<Rightarrow> 's \<Rightarrow> 's option"
  assumes refs_count: "inv s \<Longrightarrow> refs s = of_nat (length (files s)) \<and> distinct (files s)"
    and open_ok: "inv s \<Longrightarrow> f \<notin> set (files s) \<Longrightarrow>
      \<exists>t. fopen f s = Some t \<and> inv t \<and> files t = f # files s"
    and close_ok: "inv s \<Longrightarrow> f \<in> set (files s) \<Longrightarrow>
      \<exists>t. fclose f s = Some t \<and> inv t \<and> files t = remove1 f (files s)"
begin

lemma run_simulates:
  "inv s \<Longrightarrow> fop_files ops (files s) = Some fs \<Longrightarrow>
   \<exists>t. fop_run fopen fclose ops s = Some t \<and> inv t \<and> files t = fs"
proof (induction ops arbitrary: s)
  case (Cons c ops)
  show ?case
  proof (cases c)
    case (FOpen f)
    with Cons.prems have "f \<notin> set (files s)" by (auto split: if_splits)
    from open_ok [OF Cons.prems(1) this] FOpen Cons show ?thesis by (fastforce split: if_splits)
  next
    case (FClose f)
    with Cons.prems have "f \<in> set (files s)" by (auto split: if_splits)
    from close_ok [OF Cons.prems(1) this] FClose Cons show ?thesis by (fastforce split: if_splits)
  qed
qed simp

lemma run_counts:
  assumes "inv s" "fop_files ops (files s) = Some fs"
  shows "\<exists>t. fop_run fopen fclose ops s = Some t \<and> files t = fs \<and> refs t = of_nat (length fs)"
  using run_simulates [OF assms] refs_count by blast

end

section \<open>The files of a board\<close>

definition dev_files :: "ptr \<Rightarrow> 'z kst_scheme \<Rightarrow> ptr list" where
  "dev_files dev s = (case k_dev s dev of None \<Rightarrow> [] | Some d \<Rightarrow> map fl_filp (dev_file_list d))"

definition dev_refs :: "ptr \<Rightarrow> 'z kst_scheme \<Rightarrow> c_int" where
  "dev_refs dev s = (case k_dev s dev of None \<Rightarrow> 0 | Some d \<Rightarrow> dev_file_ref d)"

definition dev_open :: "kenv \<Rightarrow> ptr \<Rightarrow> c_int \<Rightarrow> ptr \<Rightarrow> 'z kst_scheme \<Rightarrow> 'z kst_scheme option" where
  "dev_open env dev minor filp s =
     (case pcieuni_open_exp env dev minor filp s of Inl _ \<Rightarrow> None | Inr (r, t) \<Rightarrow> if r = 0 then Some t else None)"

definition dev_close :: "kenv \<Rightarrow> ptr \<Rightarrow> 'z kst_scheme \<Rightarrow> 'z kst_scheme option" where
  "dev_close env filp s =
     (case pcieuni_release_exp env filp s of Inl _ \<Rightarrow> None | Inr (r, t) \<Rightarrow> if r = 0 then Some t else None)"

text \<open>
  The board is there and unlocked, its files are different, refer to the board and are counted; no
  signal arrives and the allocator delivers.
\<close>

definition dev_wf :: "ptr \<Rightarrow> pcieuni_dev \<Rightarrow> 'z kst_scheme \<Rightarrow> bool" where
  "dev_wf dev d s \<longleftrightarrow> dev \<noteq> NULL \<and> k_dev s dev = Some d \<and> \<not> dev_mut d \<and>
     distinct (map fl_filp (dev_file_list d)) \<and> dev_file_ref d = of_nat (length (dev_file_list d)) \<and>
     (\<forall>f \<in> set (dev_file_list d). k_priv s (fl_filp f) = dev)"

definition files_inv :: "kenv \<Rightarrow> ptr \<Rightarrow> 'z kst_scheme \<Rightarrow> bool" where
  "files_inv env dev s \<longleftrightarrow> memory_plenty env \<and> (\<forall>l. \<not> lock_interrupted env l dev) \<and> (\<exists>d. dev_wf dev d s)"

text \<open>The entry \<open>open\<close> makes, and what the two operations do to a board.\<close>

definition file_entry :: "ptr \<Rightarrow> ptr \<Rightarrow> pcieuni_dev \<Rightarrow> pcieuni_file_list" where
  "file_entry p filp d = \<lparr>fl_addr = p, fl_filp = filp, fl_file_cnt = dev_file_ref d + 1\<rparr>"

definition opened :: "c_int \<Rightarrow> ptr \<Rightarrow> ptr \<Rightarrow> pcieuni_dev \<Rightarrow> pcieuni_dev" where
  "opened minor p filp d = d\<lparr>dev_minor := minor, dev_file_ref := dev_file_ref d + 1,
     dev_file_list := file_entry p filp d # dev_file_list d\<rparr>"

definition released :: "ptr \<Rightarrow> pcieuni_dev \<Rightarrow> pcieuni_dev" where
  "released filp d = d\<lparr>dev_file_ref := dev_file_ref d - 1,
     dev_file_list := filter (\<lambda>f. fl_filp f \<noteq> filp) (dev_file_list d)\<rparr>"

lemma unlocked_dev [simp]: "\<not> dev_mut d \<Longrightarrow> d\<lparr>dev_mut := False\<rparr> = d"
  by (cases d) simp

lemma open_run:
  assumes "dev \<noteq> NULL" "k_dev s dev = Some d" "\<not> dev_mut d" "\<not> lock_interrupted env (k_log s) dev"
    "kzalloc_ret env (Sync (Mutex_lock dev) # k_log s) = p" "p \<noteq> NULL"
  shows "pcieuni_open_exp env dev minor filp s =
    Inr (0, (put_dev dev (opened minor p filp d) [Sync (Mutex_unlock dev), Mem (Kzalloc p), Sync (Mutex_lock dev)] s)
      \<lparr>k_priv := (k_priv s)(filp := dev)\<rparr>)"
  using assms
  by (simp add: pcieuni_open_exp_def km_simps kzalloc_run log_add_def put_dev_def opened_def file_entry_def)

lemma kfree_each_run: "kfree_each ps s = Inr ((), s\<lparr>k_log := rev (map (Mem \<circ> Kfree) ps) @ k_log s\<rparr>)"
  by (induction ps arbitrary: s) (simp_all add: km_simps log_add_def)

lemma release_run:
  assumes "k_priv s filp = dev" "dev \<noteq> NULL" "k_dev s dev = Some d" "\<not> dev_mut d"
    "\<not> lock_interrupted env (k_log s) dev"
  shows "pcieuni_release_exp env filp s =
    Inr (0, put_dev dev (released filp d) (Sync (Mutex_unlock dev) #
      rev (map (Mem \<circ> Kfree \<circ> fl_addr) (filter (\<lambda>f. fl_filp f = filp) (dev_file_list d))) @ [Sync (Mutex_lock dev)]) s)"
  using assms
  by (simp add: pcieuni_release_exp_def km_simps log_add_def put_dev_def released_def kfree_each_run comp_assoc)


lemma filter_other_length:
  assumes "distinct (map g xs)" "y \<in> set (map g xs)"
  shows "length (filter (\<lambda>x. g x \<noteq> y) xs) = length xs - 1 \<and>
    map g (filter (\<lambda>x. g x \<noteq> y) xs) = remove1 y (map g xs)"
  using assms
proof (induction xs)
  case (Cons x xs)
  show ?case
  proof (cases "g x = y")
    case True
    then have "filter (\<lambda>x. g x \<noteq> y) xs = xs" using Cons.prems(1) by (auto simp: filter_id_conv) (metis image_eqI)
    then show ?thesis using True by simp
  next
    case False
    with Cons show ?thesis by (cases xs) auto
  qed
qed simp

lemma dev_wf_open:
  assumes "dev_wf dev d s" "filp \<notin> set (map fl_filp (dev_file_list d))"
  shows "dev_wf dev (opened minor p filp d) ((put_dev dev (opened minor p filp d) new s)\<lparr>k_priv := (k_priv s)(filp := dev)\<rparr>)"
  using assms by (auto simp: dev_wf_def opened_def file_entry_def)

lemma dev_wf_release:
  assumes "dev_wf dev d s" "filp \<in> set (map fl_filp (dev_file_list d))"
  shows "dev_wf dev (released filp d) (put_dev dev (released filp d) new s)"
proof -
  have "dev_file_list d \<noteq> []" using assms(2) by auto
  then have "of_nat (length (dev_file_list d)) - 1 = (of_nat (length (dev_file_list d) - 1) :: c_int)"
    by (cases "dev_file_list d") simp_all
  then show ?thesis
    using assms filter_other_length [of fl_filp "dev_file_list d" filp]
    by (auto simp: dev_wf_def released_def distinct_map inj_on_def)
qed

interpretation ft: file_table "files_inv env dev" "dev_files dev" "dev_refs dev" "dev_open env dev minor" "dev_close env"
  for env dev minor
proof
  fix s :: "'a kst_scheme" and f
  assume inv: "files_inv env dev s"
  then obtain d where wf: "dev_wf dev d s" by (auto simp: files_inv_def)
  note W = wf [unfolded dev_wf_def]
  show "dev_refs dev s = of_nat (length (dev_files dev s)) \<and> distinct (dev_files dev s)"
    using W by (simp add: dev_refs_def dev_files_def)
  show "\<exists>t. dev_open env dev minor f s = Some t \<and> files_inv env dev t \<and> dev_files dev t = f # dev_files dev s"
    if "f \<notin> set (dev_files dev s)"
  proof -
    define p where "p = kzalloc_ret env (Sync (Mutex_lock dev) # k_log s)"
    have "p \<noteq> NULL" using inv by (simp add: files_inv_def memory_plenty_def p_def)
    then have "dev_open env dev minor f s = Some ((put_dev dev (opened minor p f d)
        [Sync (Mutex_unlock dev), Mem (Kzalloc p), Sync (Mutex_lock dev)] s)\<lparr>k_priv := (k_priv s)(f := dev)\<rparr>)"
      using open_run [of dev s d env p minor f] W inv by (simp add: dev_open_def files_inv_def p_def)
    with dev_wf_open [OF wf, of f minor p] that inv W show ?thesis
      by (auto simp: files_inv_def dev_files_def opened_def file_entry_def)
  qed
  show "\<exists>t. dev_close env f s = Some t \<and> files_inv env dev t \<and> dev_files dev t = remove1 f (dev_files dev s)"
    if "f \<in> set (dev_files dev s)"
  proof -
    have f: "f \<in> set (map fl_filp (dev_file_list d))" using that W by (simp add: dev_files_def)
    then have "k_priv s f = dev" using W by auto
    then obtain new where "dev_close env f s = Some (put_dev dev (released f d) new s)"
      using release_run [of s f dev d env] W inv by (auto simp: dev_close_def files_inv_def)
    with dev_wf_release [OF wf f] filter_other_length [OF _ f] inv W show ?thesis
      by (auto simp: files_inv_def dev_files_def released_def)
  qed
qed

section \<open>Properties of open and release\<close>

definition ex_closed :: kst where
  "ex_closed = empty_kst\<lparr>k_dev := [0x2000 \<mapsto> zero_dev]\<rparr>"

definition ex_plenty :: kenv where
  "ex_plenty = quiet_kernel\<lparr>kzalloc_ret := next_addr\<rparr>"

lemma ex_closed_inv: "files_inv ex_plenty 0x2000 ex_closed"
  by (auto simp: files_inv_def dev_wf_def ex_closed_def zero_dev_def memory_plenty_def ex_plenty_def quiet_kernel_def)

text \<open>The memory calls of a log.\<close>

definition mem_calls :: "klog \<Rightarrow> klog" where
  "mem_calls l = filter (\<lambda>c. case c of Mem _ \<Rightarrow> True | _ \<Rightarrow> False) l"

text \<open>
  C24: after every sequence of opens and closes in which a file is opened once and closed while it
  is open, the board lists exactly the open files, the most recently opened first, its reference
  count is their number, and every step has returned 0.
\<close>

theorem files_counted:
  assumes "files_inv env dev s" "fop_files ops (dev_files dev s) = Some fs"
  shows "\<exists>t. fop_run (dev_open env dev minor) (dev_close env) ops s = Some t \<and>
    dev_files dev t = fs \<and> dev_refs dev t = of_nat (length fs)"
  using assms by (rule ft.run_counts)

theorem files_counted_witness:
  "\<exists>t. fop_run (dev_open ex_plenty 0x2000 3) (dev_close ex_plenty)
      [FOpen 7, FOpen 8, FClose 7, FOpen 9] ex_closed = Some t \<and>
    dev_files 0x2000 t = [9, 8] \<and> dev_refs 0x2000 t = of_nat (length [9 :: ptr, 8])"
  by (rule files_counted [OF ex_closed_inv]) (simp_all add: ex_closed_def dev_files_def zero_dev_def)

text \<open>
  C25: opening a file and closing it again returns 0 both times, frees the entry that was allocated
  and no other, and leaves the board as it was but for the minor number of the last open, the
  other files untouched.
\<close>

theorem open_release_roundtrip:
  assumes "files_inv env dev s" "k_dev s dev = Some d" "filp \<notin> set (dev_files dev s)"
  shows "\<exists>t u p. pcieuni_open_exp env dev minor filp s = Inr (0, t) \<and> k_priv t filp = dev \<and>
    pcieuni_release_exp env filp t = Inr (0, u) \<and> k_dev u = (k_dev s)(dev \<mapsto> d\<lparr>dev_minor := minor\<rparr>) \<and>
    mem_calls (k_log u) =
      [Mem (Kfree p), Mem (Kzalloc p)] @ mem_calls (k_log s)"
proof -
  from assms(1,2) have wf: "dev_wf dev d s" and env: "memory_plenty env" "\<And>l. \<not> lock_interrupted env l dev"
    by (auto simp: files_inv_def dev_wf_def)
  note W = wf [unfolded dev_wf_def]
  define p where "p = kzalloc_ret env (Sync (Mutex_lock dev) # k_log s)"
  have p: "p \<noteq> NULL" using env(1) by (simp add: memory_plenty_def p_def)
  let ?d = "opened minor p filp d"
  let ?t = "(put_dev dev ?d [Sync (Mutex_unlock dev), Mem (Kzalloc p), Sync (Mutex_lock dev)] s)\<lparr>k_priv := (k_priv s)(filp := dev)\<rparr>"
  have "pcieuni_open_exp env dev minor filp s = Inr (0, ?t)"
    using open_run [of dev s d env p minor filp] W env p by (simp add: p_def)
  moreover have no: "filter (\<lambda>f. fl_filp f = filp) (dev_file_list d) = []"
    "filter (\<lambda>f. fl_filp f \<noteq> filp) (dev_file_list d) = dev_file_list d"
    using assms(2,3) by (auto simp: dev_files_def filter_empty_conv filter_id_conv)
  have mine: "filter (\<lambda>f. fl_filp f = filp) (dev_file_list ?d) = [file_entry p filp d]"
    using no(1) by (simp add: opened_def file_entry_def)
  have same: "released filp ?d = d\<lparr>dev_minor := minor\<rparr>"
    using no by (cases d) (simp add: released_def opened_def file_entry_def)
  have "pcieuni_release_exp env filp ?t = Inr (0, put_dev dev (d\<lparr>dev_minor := minor\<rparr>)
      [Sync (Mutex_unlock dev), Mem (Kfree p), Sync (Mutex_lock dev)] ?t)"
    using release_run [of ?t filp dev ?d env] W env(2) same mine
    by (simp add: file_entry_def) (simp add: opened_def)
  ultimately show ?thesis
    by (intro exI [of _ ?t] exI [of _ "put_dev dev (d\<lparr>dev_minor := minor\<rparr>)
      [Sync (Mutex_unlock dev), Mem (Kfree p), Sync (Mutex_lock dev)] ?t"] exI [of _ p]) (simp add: mem_calls_def)
qed


theorem open_release_roundtrip_witness:
  "\<exists>t u p. pcieuni_open_exp ex_plenty 0x2000 3 7 ex_closed = Inr (0, t) \<and> k_priv t 7 = 0x2000 \<and>
    pcieuni_release_exp ex_plenty 7 t = Inr (0, u) \<and> k_dev u = (k_dev ex_closed)(0x2000 \<mapsto> zero_dev\<lparr>dev_minor := 3\<rparr>) \<and>
    mem_calls (k_log u) = [Mem (Kfree p), Mem (Kzalloc p)] @ mem_calls (k_log ex_closed)"
  by (rule open_release_roundtrip [OF ex_closed_inv]) (simp_all add: ex_closed_def dev_files_def zero_dev_def)

text \<open>
  Open and release when something goes wrong. A signal during the wait for the mutex makes both
  return -ERESTARTSYS; open has set the minor number by then, nothing else changes. When no memory
  is left for the list entry, open stores through the null pointer. While the mutex is held for
  good, both wait for ever.
\<close>

theorem open_release_errors:
  assumes "dev \<noteq> NULL" "k_dev s dev = Some d" "k_priv s filp = dev"
  shows "(lock_interrupted env (k_log s) dev \<longrightarrow>
      pcieuni_open_exp env dev minor filp s = Inr (- ERESTARTSYS, put_dev dev (d\<lparr>dev_minor := minor\<rparr>) [] s) \<and>
      pcieuni_release_exp env filp s = Inr (- ERESTARTSYS, s)) \<and>
    (\<not> lock_interrupted env (k_log s) dev \<and> \<not> dev_mut d \<and> kzalloc_ret env (Sync (Mutex_lock dev) # k_log s) = NULL \<longrightarrow>
      pcieuni_open_exp env dev minor filp s = Inl NullDeref) \<and>
    (\<not> lock_interrupted env (k_log s) dev \<and> dev_mut d \<longrightarrow>
      pcieuni_open_exp env dev minor filp s = Inl Deadlock \<and> pcieuni_release_exp env filp s = Inl Deadlock)"
  using assms
  by (auto simp: pcieuni_open_exp_def pcieuni_release_exp_def km_simps put_dev_def kzalloc_run log_add_def)

theorem open_release_errors_witness:
  "pcieuni_open_exp (quiet_kernel\<lparr>kzalloc_ret := (\<lambda>_. NULL)\<rparr>) 0x2000 3 7 (ex_closed\<lparr>k_priv := (\<lambda>_. 0x2000)\<rparr>) = Inl NullDeref"
  using open_release_errors [of "0x2000" "ex_closed\<lparr>k_priv := (\<lambda>_. 0x2000)\<rparr>" zero_dev 7
      "quiet_kernel\<lparr>kzalloc_ret := (\<lambda>_. NULL)\<rparr>" 3]
  by (simp add: ex_closed_def zero_dev_def quiet_kernel_def)

end
