(* ===== verification/Ioctl_Ops.thy ===== *)
theory Ioctl_Ops
  imports File_Ops
begin

text \<open>
  \<open>pcieuni_ioctl_exp\<close> and the ioctl data of \<open>pcieuni_io.h\<close>: the three queries a user program can make
  (physical slot, driver version, firmware version), their error paths, the mutex an unknown
  command keeps and the uninitialised words the version queries deliver.
\<close>

record device_ioctrl_data =
  io_offset :: u32
  io_data :: u32
  io_cmd :: u32
  io_reserved :: u32

text \<open>\<open>_IOWR('U', nr, int)\<close>: direction 3, size 4, type \<open>'U'\<close>.\<close>

definition IOWR_U :: "u32 \<Rightarrow> u32" where
  "IOWR_U nr = push_bit 30 3 OR push_bit 16 4 OR push_bit 8 0x55 OR nr"

definition PCIEUNI_PHYSICAL_SLOT :: u32 where "PCIEUNI_PHYSICAL_SLOT = IOWR_U 60"
definition PCIEUNI_DRIVER_VERSION :: u32 where "PCIEUNI_DRIVER_VERSION = IOWR_U 61"
definition PCIEUNI_FIRMWARE_VERSION :: u32 where "PCIEUNI_FIRMWARE_VERSION = IOWR_U 62"

definition IOC_SIZE :: "u32 \<Rightarrow> u64" where
  "IOC_SIZE cmd = ucast (drop_bit 16 cmd AND 0x3FFF)"

abbreviation (input) PCI_REVISION_ID :: c_int where "PCI_REVISION_ID \<equiv> 0x08"

text \<open>The structure as the four words user space sees.\<close>

definition data_words :: "device_ioctrl_data \<Rightarrow> u32 list" where
  "data_words data = [io_offset data, io_data data, io_cmd data, io_reserved data]"

definition words_data :: "u32 list \<Rightarrow> device_ioctrl_data" where
  "words_data ws = \<lparr>io_offset = ws ! 0, io_data = ws ! 1, io_cmd = ws ! 2, io_reserved = ws ! 3\<rparr>"

text \<open>The last statements of a query: copy the answer out, unlock, return.\<close>

definition ioctl_answer :: "kenv \<Rightarrow> ptr \<Rightarrow> ptr \<Rightarrow> device_ioctrl_data \<Rightarrow> ('z kst_scheme, ssize) km" where
  "ioctl_answer env dev arg data =
     kbind (klift (copy_to_user env arg (data_words data))) (\<lambda>uncopied.
     if uncopied then kseq (mutex_unlock dev) (kret (scast (- EFAULT)))
     else kseq (mutex_unlock dev) (kret 0))"

text \<open>\<open>junk\<close> is the uninitialised local variable \<open>data\<close>.\<close>

definition pcieuni_ioctl_exp ::
  "kenv \<Rightarrow> device_ioctrl_data \<Rightarrow> ptr \<Rightarrow> u32 \<Rightarrow> ptr \<Rightarrow> ptr \<Rightarrow> ('z kst_scheme, ssize) km" where
  "pcieuni_ioctl_exp env junk filp cmd arg pcieuni_cdev_m =
     kbind (kget (\<lambda>s. k_priv s filp)) (\<lambda>dev.
     kbind (get_dev dev) (\<lambda>d.
     if dev_sts d = 0 then kret (scast (- EFAULT))
     else if \<not> access_ok_ret env arg (IOC_SIZE cmd) then kret (scast (- EFAULT))
     else
       kbind (mutex_lock_interruptible env dev) (\<lambda>interrupted.
       if interrupted then kret (scast (- ERESTARTSYS))
       else if cmd = PCIEUNI_PHYSICAL_SLOT then
         kbind (klift (copy_from_user env arg 4)) (\<lambda>copied.
         case copied of
           None \<Rightarrow> kseq (mutex_unlock dev) (kret (scast (- EFAULT)))
         | Some ws \<Rightarrow>
             kbind (get_dev dev) (\<lambda>d.
             ioctl_answer env dev arg
               ((words_data ws)\<lparr>io_data := slot_num d, io_cmd := PCIEUNI_PHYSICAL_SLOT\<rparr>)))
       else if cmd = PCIEUNI_DRIVER_VERSION then
         kbind (get_cdev pcieuni_cdev_m) (\<lambda>c.
         ioctl_answer env dev arg
           (junk\<lparr>io_data := ucast (PCIEUNI_DRV_VER_MAJ c), io_offset := ucast (PCIEUNI_DRV_VER_MIN c)\<rparr>))
       else if cmd = PCIEUNI_FIRMWARE_VERSION then
         kbind (get_dev dev) (\<lambda>d.
         kbind (kget (\<lambda>s. pci_config_byte env (k_log s) (pcieuni_pci_dev d) PCI_REVISION_ID)) (\<lambda>tmp_revision.
         ioctl_answer env dev arg
           (junk\<lparr>io_data := ucast tmp_revision, io_offset := ucast (revision d)\<rparr>)))
       else kret (scast (- ENOTTY)))))"

section \<open>The answers\<close>

lemma ioctl_cmds_differ:
  "PCIEUNI_DRIVER_VERSION \<noteq> PCIEUNI_PHYSICAL_SLOT" "PCIEUNI_FIRMWARE_VERSION \<noteq> PCIEUNI_PHYSICAL_SLOT"
  "PCIEUNI_FIRMWARE_VERSION \<noteq> PCIEUNI_DRIVER_VERSION"
  by (simp_all add: PCIEUNI_DRIVER_VERSION_def PCIEUNI_PHYSICAL_SLOT_def PCIEUNI_FIRMWARE_VERSION_def IOWR_U_def)

text \<open>A call that gets past the checks and the mutex.\<close>

definition ioctl_admitted :: "kenv \<Rightarrow> ptr \<Rightarrow> ptr \<Rightarrow> pcieuni_dev \<Rightarrow> u32 \<Rightarrow> ptr \<Rightarrow> 'z kst_scheme \<Rightarrow> bool" where
  "ioctl_admitted env filp dev d cmd arg s \<longleftrightarrow> k_priv s filp = dev \<and> dev \<noteq> NULL \<and> k_dev s dev = Some d \<and>
     dev_sts d \<noteq> 0 \<and> \<not> dev_mut d \<and> access_ok_ret env arg (IOC_SIZE cmd) \<and> \<not> lock_interrupted env (k_log s) dev"

definition ioctl_reply :: "kenv \<Rightarrow> ptr \<Rightarrow> ptr \<Rightarrow> u32 list \<Rightarrow> klog \<Rightarrow> klog" where
  "ioctl_reply env dev arg ws l =
     (if copy_to_user_fails env l arg then Sync (Mutex_unlock dev) # l
      else Sync (Mutex_unlock dev) # Io (Copy_to_user arg ws) # l)"

lemma ioctl_answer_run:
  assumes "dev \<noteq> NULL" "k_dev s dev = Some (d\<lparr>dev_mut := True\<rparr>)" "\<not> dev_mut d"
  shows "ioctl_answer env dev arg data s =
    Inr (if copy_to_user_fails env (k_log s) arg then scast (- EFAULT :: c_int) else 0,
      s\<lparr>k_dev := (k_dev s)(dev \<mapsto> d), k_log := ioctl_reply env dev arg (data_words data) (k_log s)\<rparr>)"
  using assms
  by (cases "copy_to_user_fails env (k_log s) arg")
     (simp_all add: ioctl_answer_def km_simps copy_to_user_def ioctl_reply_def log_add_def)

lemma lock_round [simp]: "\<not> dev_mut d \<Longrightarrow> d\<lparr>dev_mut := c, dev_mut := False\<rparr> = d"
  by (cases d) simp

lemma ioctl_admittedD:
  assumes "ioctl_admitted env filp dev d cmd arg s"
  shows "k_priv s filp = dev" "dev \<noteq> NULL" "k_dev s dev = Some d" "dev_sts d \<noteq> 0" "\<not> dev_mut d"
    "access_ok_ret env arg (IOC_SIZE cmd)" "\<not> lock_interrupted env (k_log s) dev"
  using assms by (simp_all add: ioctl_admitted_def)

text \<open>
  C32: the slot query of a live board. It returns 0 and the user's structure holds the slot number
  in \<open>data\<close>, the command in \<open>cmd\<close>, and in the other two words what the user had there; the board is
  left unlocked and unchanged.
\<close>

theorem ioctl_slot_query:
  assumes "ioctl_admitted env filp dev d PCIEUNI_PHYSICAL_SLOT arg s"
    "\<And>l. \<not> copy_from_user_fails env l arg" "\<And>l. \<not> copy_to_user_fails env l arg"
    "\<And>l a. user_word env l a = mem a"
  shows "pcieuni_ioctl_exp env junk filp PCIEUNI_PHYSICAL_SLOT arg cdev s =
    Inr (0, s\<lparr>k_log := [Sync (Mutex_unlock dev),
        Io (Copy_to_user arg [mem arg, slot_num d, PCIEUNI_PHYSICAL_SLOT, mem (arg + 12)]),
        Io (Copy_from_user arg [mem arg, mem (arg + 4), mem (arg + 8), mem (arg + 12)]),
        Sync (Mutex_lock dev)] @ k_log s\<rparr>)"
proof -
  have "map (\<lambda>i. mem (arg + 4 * of_nat i)) [0..<4] = [mem arg, mem (arg + 4), mem (arg + 8), mem (arg + 12)]"
    by (simp add: upt_conv_Cons)
  then show ?thesis using ioctl_admittedD [OF assms(1)] assms(2-)
    by (simp add: pcieuni_ioctl_exp_def km_simps copy_from_user_def Let_def ioctl_answer_run
        ioctl_reply_def words_data_def data_words_def log_add_def fun_upd_idem)
qed

definition ex_live :: kst where
  "ex_live = empty_kst\<lparr>k_dev := [0x2000 \<mapsto> zero_dev\<lparr>dev_sts := 1, slot_num := 5\<rparr>], k_priv := (\<lambda>_. 0x2000),
     k_cdev := [0x300 \<mapsto> zero_cdev\<lparr>PCIEUNI_DRV_VER_MAJ := 1, PCIEUNI_DRV_VER_MIN := 4\<rparr>]\<rparr>"

lemma ex_live_admitted:
  "ioctl_admitted quiet_kernel 7 0x2000 (zero_dev\<lparr>dev_sts := 1, slot_num := 5\<rparr>) cmd arg ex_live"
  by (simp add: ioctl_admitted_def ex_live_def zero_dev_def quiet_kernel_def)

theorem ioctl_slot_query_witness:
  "pcieuni_ioctl_exp quiet_kernel \<lparr>io_offset = 1, io_data = 2, io_cmd = 3, io_reserved = 4\<rparr> 7
      PCIEUNI_PHYSICAL_SLOT 0x5000 0x300 ex_live =
    Inr (0, ex_live\<lparr>k_log := [Sync (Mutex_unlock 0x2000), Io (Copy_to_user 0x5000 [0, 5, PCIEUNI_PHYSICAL_SLOT, 0]),
        Io (Copy_from_user 0x5000 [0, 0, 0, 0]), Sync (Mutex_lock 0x2000)] @ k_log ex_live\<rparr>)"
  using ioctl_slot_query [OF ex_live_admitted, where mem = "\<lambda>_. 0" and arg = "0x5000"]
  by (simp add: quiet_kernel_def)

text \<open>
  The version queries of a live board return 0 and deliver the version in the first two words;
  the third and the fourth word are those of the uninitialised local structure, whatever the
  kernel stack held.
\<close>

theorem ioctl_version_queries:
  assumes "ioctl_admitted env filp dev d cmd arg s" "\<And>l. \<not> copy_to_user_fails env l arg"
    "cdev \<noteq> NULL" "k_cdev s cdev = Some c"
  shows "(cmd = PCIEUNI_DRIVER_VERSION \<longrightarrow> pcieuni_ioctl_exp env junk filp cmd arg cdev s =
      Inr (0, s\<lparr>k_log := [Sync (Mutex_unlock dev),
        Io (Copy_to_user arg [ucast (PCIEUNI_DRV_VER_MIN c), ucast (PCIEUNI_DRV_VER_MAJ c), io_cmd junk, io_reserved junk]),
        Sync (Mutex_lock dev)] @ k_log s\<rparr>)) \<and>
    (cmd = PCIEUNI_FIRMWARE_VERSION \<longrightarrow> pcieuni_ioctl_exp env junk filp cmd arg cdev s =
      Inr (0, s\<lparr>k_log := [Sync (Mutex_unlock dev),
        Io (Copy_to_user arg [ucast (revision d),
          ucast (pci_config_byte env (Sync (Mutex_lock dev) # k_log s) (pcieuni_pci_dev d) PCI_REVISION_ID),
          io_cmd junk, io_reserved junk]),
        Sync (Mutex_lock dev)] @ k_log s\<rparr>))"
  using ioctl_admittedD [OF assms(1)] assms(2-) ioctl_cmds_differ
  by (simp add: pcieuni_ioctl_exp_def km_simps ioctl_answer_run
        ioctl_reply_def data_words_def log_add_def fun_upd_idem) auto

theorem ioctl_version_queries_witness:
  "pcieuni_ioctl_exp quiet_kernel \<lparr>io_offset = 1, io_data = 2, io_cmd = 0xDEAD, io_reserved = 0xBEEF\<rparr> 7
      PCIEUNI_DRIVER_VERSION 0x5000 0x300 ex_live =
    Inr (0, ex_live\<lparr>k_log := [Sync (Mutex_unlock 0x2000), Io (Copy_to_user 0x5000 [4, 1, 0xDEAD, 0xBEEF]),
        Sync (Mutex_lock 0x2000)] @ k_log ex_live\<rparr>)"
  using ioctl_version_queries [OF ex_live_admitted, of "0x5000" "0x300" "zero_cdev\<lparr>PCIEUNI_DRV_VER_MAJ := 1, PCIEUNI_DRV_VER_MIN := 4\<rparr>"
     PCIEUNI_DRIVER_VERSION "\<lparr>io_offset = 1, io_data = 2, io_cmd = 0xDEAD, io_reserved = 0xBEEF\<rparr>"]
  by (simp add: ex_live_def quiet_kernel_def)

text \<open>
  The errors of ioctl. A board that is not there and a bad user address give -EFAULT, a signal
  -ERESTARTSYS, with nothing changed; a copy from or to user space that fails gives -EFAULT with
  the board unlocked and unchanged.
\<close>

theorem ioctl_errors:
  assumes "k_priv s filp = dev" "dev \<noteq> NULL" "k_dev s dev = Some d"
  shows "(dev_sts d = 0 \<or> \<not> access_ok_ret env arg (IOC_SIZE cmd) \<longrightarrow>
      pcieuni_ioctl_exp env junk filp cmd arg cdev s = Inr (- 14, s)) \<and>
    (dev_sts d \<noteq> 0 \<and> access_ok_ret env arg (IOC_SIZE cmd) \<and> lock_interrupted env (k_log s) dev \<longrightarrow>
      pcieuni_ioctl_exp env junk filp cmd arg cdev s = Inr (- 512, s)) \<and>
    (ioctl_admitted env filp dev d cmd arg s \<and> cmd = PCIEUNI_PHYSICAL_SLOT \<and>
       copy_from_user_fails env (Sync (Mutex_lock dev) # k_log s) arg \<longrightarrow>
      pcieuni_ioctl_exp env junk filp cmd arg cdev s =
        Inr (- 14, s\<lparr>k_log := [Sync (Mutex_unlock dev), Sync (Mutex_lock dev)] @ k_log s\<rparr>)) \<and>
    (ioctl_admitted env filp dev d cmd arg s \<and> cmd = PCIEUNI_FIRMWARE_VERSION \<and>
       copy_to_user_fails env (Sync (Mutex_lock dev) # k_log s) arg \<longrightarrow>
      pcieuni_ioctl_exp env junk filp cmd arg cdev s =
        Inr (- 14, s\<lparr>k_log := [Sync (Mutex_unlock dev), Sync (Mutex_lock dev)] @ k_log s\<rparr>))"
proof (intro conjI impI)
  note run = pcieuni_ioctl_exp_def km_simps copy_from_user_def ioctl_answer_run ioctl_reply_def
    log_add_def fun_upd_idem
  show "pcieuni_ioctl_exp env junk filp cmd arg cdev s = Inr (- 14, s)"
    if "dev_sts d = 0 \<or> \<not> access_ok_ret env arg (IOC_SIZE cmd)"
    using assms that by (auto simp: run)
  show "pcieuni_ioctl_exp env junk filp cmd arg cdev s = Inr (- 512, s)"
    if "dev_sts d \<noteq> 0 \<and> access_ok_ret env arg (IOC_SIZE cmd) \<and> lock_interrupted env (k_log s) dev"
    using assms that by (simp add: run)
  show "pcieuni_ioctl_exp env junk filp cmd arg cdev s =
        Inr (- 14, s\<lparr>k_log := [Sync (Mutex_unlock dev), Sync (Mutex_lock dev)] @ k_log s\<rparr>)"
    if "ioctl_admitted env filp dev d cmd arg s \<and> cmd = PCIEUNI_PHYSICAL_SLOT \<and>
       copy_from_user_fails env (Sync (Mutex_lock dev) # k_log s) arg"
    using ioctl_admittedD [OF that [THEN conjunct1]] that [THEN conjunct2] by (simp add: run)
  show "pcieuni_ioctl_exp env junk filp cmd arg cdev s =
        Inr (- 14, s\<lparr>k_log := [Sync (Mutex_unlock dev), Sync (Mutex_lock dev)] @ k_log s\<rparr>)"
    if "ioctl_admitted env filp dev d cmd arg s \<and> cmd = PCIEUNI_FIRMWARE_VERSION \<and>
       copy_to_user_fails env (Sync (Mutex_lock dev) # k_log s) arg"
    using ioctl_admittedD [OF that [THEN conjunct1]] that [THEN conjunct2] ioctl_cmds_differ by (simp add: run)
qed

theorem ioctl_errors_witness:
  "pcieuni_ioctl_exp (quiet_kernel\<lparr>lock_interrupted := (\<lambda>_ _. True)\<rparr>)
     \<lparr>io_offset = 1, io_data = 2, io_cmd = 3, io_reserved = 4\<rparr> 7 0x1234 0x5000 0x300 ex_live = Inr (- 512, ex_live)"
  using ioctl_errors [of ex_live 7 "0x2000" "zero_dev\<lparr>dev_sts := 1, slot_num := 5\<rparr>"
      "quiet_kernel\<lparr>lock_interrupted := (\<lambda>_ _. True)\<rparr>" "0x5000" "0x1234"]
  by (simp add: ex_live_def quiet_kernel_def)

text \<open>
  C33: a command ioctl does not know returns -ENOTTY with the mutex of the board held: every later
  ioctl, open and release that is not interrupted by a signal waits for ever.
\<close>

theorem ioctl_unknown_keeps_mutex:
  assumes "ioctl_admitted env filp dev d cmd arg s"
    "cmd \<notin> {PCIEUNI_PHYSICAL_SLOT, PCIEUNI_DRIVER_VERSION, PCIEUNI_FIRMWARE_VERSION}"
    "\<And>l. \<not> lock_interrupted env l dev"
  shows "\<exists>t. pcieuni_ioctl_exp env junk filp cmd arg cdev s = Inr (- 25, t) \<and>
    k_dev t dev = Some (d\<lparr>dev_mut := True\<rparr>) \<and>
    (\<forall>arg' cmd'. access_ok_ret env arg' (IOC_SIZE cmd') \<longrightarrow>
      pcieuni_ioctl_exp env junk filp cmd' arg' cdev t = Inl Deadlock) \<and>
    (\<forall>minor f. pcieuni_open_exp env dev minor f t = Inl Deadlock) \<and>
    pcieuni_release_exp env filp t = Inl Deadlock"
proof -
  let ?t = "put_dev dev (d\<lparr>dev_mut := True\<rparr>) [Sync (Mutex_lock dev)] s"
  have "pcieuni_ioctl_exp env junk filp cmd arg cdev s = Inr (- 25, ?t)"
    using ioctl_admittedD [OF assms(1)] assms(2) by (simp add: pcieuni_ioctl_exp_def km_simps put_dev_def log_add_def)
  moreover have "mutex_lock_interruptible env dev u = Inl Deadlock"
    if "k_dev u dev = Some (e\<lparr>dev_mut := True\<rparr>)" for u :: "'a kst_scheme" and e
    using assms(1,3) that by (simp add: km_simps ioctl_admitted_def)
  ultimately show ?thesis using assms(1,3)
    by (intro exI [of _ ?t])
       (auto simp: ioctl_admitted_def pcieuni_ioctl_exp_def pcieuni_open_exp_def pcieuni_release_exp_def km_simps)
qed

theorem ioctl_unknown_keeps_mutex_witness:
  "\<exists>t. pcieuni_ioctl_exp quiet_kernel \<lparr>io_offset = 1, io_data = 2, io_cmd = 3, io_reserved = 4\<rparr> 7 0x1234 0x5000 0x300 ex_live =
      Inr (- 25, t) \<and> k_dev t 0x2000 = Some (zero_dev\<lparr>dev_sts := 1, slot_num := 5, dev_mut := True\<rparr>) \<and>
    pcieuni_release_exp quiet_kernel 7 t = Inl Deadlock"
  using ioctl_unknown_keeps_mutex [OF ex_live_admitted, where cmd = "0x1234" and arg = "0x5000"]
  by (force simp: PCIEUNI_DRIVER_VERSION_def PCIEUNI_PHYSICAL_SLOT_def PCIEUNI_FIRMWARE_VERSION_def IOWR_U_def quiet_kernel_def)

end
