(* ===== verification/Module_Init.thy ===== *)
theory Module_Init
  imports File_Ops Kernel_Resources
begin

text \<open>
  \<open>pcieuni_init_module_exp\<close> and \<open>pcieuni_cleanup_module_exp\<close>: the table of the fifteen boards and the null
  device, its character devices, the class and the device numbers; what initialisation leaves
  behind when memory runs out.
\<close>

section \<open>The operations\<close>

definition MKDEV :: "c_int \<Rightarrow> c_int \<Rightarrow> c_int" where
  "MKDEV ma mi = push_bit 20 ma OR mi"

definition kzalloc_cdev :: "kenv \<Rightarrow> ('z kst_scheme, ptr) km" where
  "kzalloc_cdev env = kbind (klift (kzalloc env)) (\<lambda>p.
     kseq (kwhen (p \<noteq> NULL) (kmod (\<lambda>s. s\<lparr>k_cdev := (k_cdev s)(p \<mapsto> zero_cdev)\<rparr>))) (kret p))"

definition kzalloc_dev :: "kenv \<Rightarrow> ('z kst_scheme, ptr) km" where
  "kzalloc_dev env = kbind (klift (kzalloc env)) (\<lambda>p.
     kseq (kwhen (p \<noteq> NULL) (kmod (\<lambda>s. s\<lparr>k_dev := (k_dev s)(p \<mapsto> zero_dev)\<rparr>))) (kret p))"

definition kfree_cdev :: "ptr \<Rightarrow> ('z kst_scheme, unit) km" where
  "kfree_cdev p = kseq (kmod (\<lambda>s. s\<lparr>k_cdev := (k_cdev s)(p := None)\<rparr>)) (log_call (Mem (Kfree p)))"

definition kfree_dev :: "ptr \<Rightarrow> ('z kst_scheme, unit) km" where
  "kfree_dev p = kseq (kmod (\<lambda>s. s\<lparr>k_dev := (k_dev s)(p := None)\<rparr>)) (log_call (Mem (Kfree p)))"

definition set_dev_m :: "nat \<Rightarrow> ptr \<Rightarrow> pcieuni_cdev \<Rightarrow> pcieuni_cdev" where
  "set_dev_m i p c = c\<lparr>pcieuni_dev_m := (pcieuni_dev_m c)[i := p]\<rparr>"

fun free_boards :: "ptr \<Rightarrow> nat list \<Rightarrow> ('z kst_scheme, unit) km" where
  "free_boards cdev_p [] = kret ()"
| "free_boards cdev_p (k # ks) =
     kbind (get_cdev cdev_p) (\<lambda>c.
     kseq (kwhen (pcieuni_dev_m c ! k \<noteq> NULL) (kfree_dev (pcieuni_dev_m c ! k)))
     (free_boards cdev_p ks))"

text \<open>One turn of the loop: \<open>None\<close> to go on, \<open>Some r\<close> to return \<open>r\<close>.\<close>

definition init_board :: "kenv \<Rightarrow> ptr \<Rightarrow> nat \<Rightarrow> ('z kst_scheme, c_int option) km" where
  "init_board env cdev_p i =
     kbind (kzalloc_dev env) (\<lambda>p.
     kseq (upd_cdev cdev_p (set_dev_m i p)) (
     if p = NULL then
       kseq (free_boards cdev_p [0..<i]) (
       kseq (kwhen (cdev_p \<noteq> NULL) (kfree_cdev cdev_p))
       (kret (Some (- ENOMEM))))
     else
       kseq (upd_dev p (parent_dev_update (\<lambda>_. cdev_p))) (
       kbind (get_cdev cdev_p) (\<lambda>c.
       let devno = MKDEV (PCIEUNI_MAJOR c) (PCIEUNI_MINOR c + of_nat i) in
       kseq (upd_dev p (\<lambda>d. d\<lparr>dev_num := devno, dev_minor := PCIEUNI_MINOR c + of_nat i\<rparr>)) (
       kbind (kget (\<lambda>s. cdev_add_ret env (k_log s) devno)) (\<lambda>result.
       kseq (log_call (Node (Cdev_add p devno))) (
       if result \<noteq> 0 then kret (Some 1)
       else
         kseq (upd_dev p (\<lambda>d. d\<lparr>prj_info_list := [], dev_file_list := [], dev_mut := False,
                 dev_sts := 0, dev_file_ref := 0, irq_mode := 0, msi := 0, dev_dma_64mask := 0,
                 pcieuni_all_mems := 0, brd_num := of_nat i, binded := 0, list_file_cnt := 0,
                 null_dev := 0\<rparr>)) (
         kseq (kwhen (i = PCIEUNI_NR_DEVS) (upd_dev p (\<lambda>d. d\<lparr>binded := 1, null_dev := 1\<rparr>)))
         (kret None)))))))))"

fun init_boards :: "kenv \<Rightarrow> ptr \<Rightarrow> nat list \<Rightarrow> ('z kst_scheme, c_int) km" where
  "init_boards env cdev_p [] = kret 0"
| "init_boards env cdev_p (i # is) =
     kbind (init_board env cdev_p i) (\<lambda>r.
     case r of None \<Rightarrow> init_boards env cdev_p is | Some code \<Rightarrow> kret code)"

text \<open>
  A module version is read as \<open>"1.23"\<close>: the number it starts with and the number from its fourth
  character on. For a text that ends before its fourth
  position the driver reads past its end.
\<close>

definition read_version :: "kenv \<Rightarrow> string \<Rightarrow> ('z kst_scheme, u16 \<times> u16) km" where
  "read_version env v = (if length v < 3 then kfail OutOfBounds
     else kret (ucast (simple_strtol_ret env v), ucast (simple_strtol_ret env (drop 3 v))))"

text \<open>
  The result and what the pointer to the module structure holds afterwards; \<open>pp\<close> is what it held
  before, \<open>base_version\<close> and \<open>owner_version\<close> the versions of this module and of the module the file
  operations belong to.
\<close>

definition pcieuni_init_module_exp ::
  "kenv \<Rightarrow> ptr \<Rightarrow> string \<Rightarrow> string \<Rightarrow> ('z kst_scheme, c_int \<times> ptr) km" where
  "pcieuni_init_module_exp env pp base_version owner_version =
     kbind (kzalloc_cdev env) (\<lambda>cdev_p.
     if cdev_p = NULL then kret (- ENOMEM, pp)
     else
       kseq (upd_cdev cdev_p (\<lambda>c. c\<lparr>PCIEUNI_MAJOR := 47, PCIEUNI_MINOR := 0, pcieuniModuleNum := 0,
               PCIEUNI_DRV_VER_MAJ := 1, PCIEUNI_DRV_VER_MIN := 1,
               GPCIEUNI_VER_MAJ := 1, GPCIEUNI_VER_MIN := 1\<rparr>)) (
       kbind (get_cdev cdev_p) (\<lambda>c.
       kbind (kget (\<lambda>s. alloc_chrdev_major env (k_log s))) (\<lambda>major.
       kseq (log_call (Node (Alloc_chrdev_region (PCIEUNI_MINOR c) (PCIEUNI_NR_DEVS + 1)))) (
       kseq (upd_cdev cdev_p (PCIEUNI_MAJOR_update (\<lambda>_. major))) (
       kbind (kget (\<lambda>s. class_create_ret env (k_log s))) (\<lambda>cl.
       kseq (log_call (Node (Class_create cl))) (
       kseq (upd_cdev cdev_p (pcieuni_class_update (\<lambda>_. cl))) (
       kbind (read_version env base_version) (\<lambda>(maj, min).
       kseq (upd_cdev cdev_p (\<lambda>c. c\<lparr>GPCIEUNI_VER_MAJ := maj, GPCIEUNI_VER_MIN := min\<rparr>)) (
       kbind (read_version env owner_version) (\<lambda>(maj, min).
       kseq (upd_cdev cdev_p (\<lambda>c. c\<lparr>PCIEUNI_DRV_VER_MAJ := maj, PCIEUNI_DRV_VER_MIN := min\<rparr>)) (
       kbind (init_boards env cdev_p [0..<PCIEUNI_NR_DEVS + 1]) (\<lambda>result.
       kret (result, cdev_p)))))))))))))))"

fun cleanup_boards :: "ptr \<Rightarrow> nat list \<Rightarrow> ('z kst_scheme, unit) km" where
  "cleanup_boards cdev_m [] = kret ()"
| "cleanup_boards cdev_m (k # ks) =
     kbind (get_cdev cdev_m) (\<lambda>c.
     kseq (kwhen (pcieuni_dev_m c ! k \<noteq> NULL) (
       kseq (kfree_dev (pcieuni_dev_m c ! k)) (upd_cdev cdev_m (set_dev_m k NULL))))
     (cleanup_boards cdev_m ks))"

text \<open>The result is what the pointer to the module structure holds afterwards.\<close>

definition pcieuni_cleanup_module_exp :: "ptr \<Rightarrow> ('z kst_scheme, ptr) km" where
  "pcieuni_cleanup_module_exp pp =
     kbind (get_cdev pp) (\<lambda>c.
     kseq (log_call (Node (Unregister_chrdev_region (MKDEV (PCIEUNI_MAJOR c) (PCIEUNI_MINOR c)) (PCIEUNI_NR_DEVS + 1)))) (
     kseq (log_call (Node (Class_destroy (pcieuni_class c)))) (
     kseq (cleanup_boards pp [0..<PCIEUNI_NR_DEVS + 1]) (
     kseq (kfree_cdev pp)
     (kret NULL)))))"

section \<open>The table while it is filled\<close>

text \<open>A board as initialisation leaves it.\<close>

definition fresh_board :: "ptr \<Rightarrow> c_int \<Rightarrow> nat \<Rightarrow> pcieuni_dev" where
  "fresh_board cdev_p major i = zero_dev\<lparr>parent_dev := cdev_p, dev_num := MKDEV major (of_nat i),
     dev_minor := of_nat i, brd_num := of_nat i,
     binded := (if i = PCIEUNI_NR_DEVS then 1 else 0), null_dev := (if i = PCIEUNI_NR_DEVS then 1 else 0)\<rparr>"

text \<open>The allocator never delivers memory that is in use; it may deliver none.\<close>

definition alloc_sound :: "kenv \<Rightarrow> bool" where
  "alloc_sound env \<longleftrightarrow> (\<forall>l. length l < 2 ^ 63 \<longrightarrow> kzalloc_ret env l = NULL \<or> RMem (kzalloc_ret env l) \<notin># held env l)"

lemma alloc_fresh_sound: "alloc_fresh env \<Longrightarrow> alloc_sound env"
  by (simp add: alloc_fresh_def alloc_sound_def)

text \<open>
  The calls that register and unregister the class, the device numbers and the character
  devices. The driver never calls \<open>cdev_del\<close>, so a registration of a character device is never
  undone.
\<close>

definition reg_calls :: "klog \<Rightarrow> klog" where
  "reg_calls l = filter (\<lambda>c. case c of Node n \<Rightarrow>
     (case n of Alloc_chrdev_region _ _ \<Rightarrow> True | Unregister_chrdev_region _ _ \<Rightarrow> True
      | Class_create _ \<Rightarrow> True | Class_destroy _ \<Rightarrow> True | Cdev_add _ _ \<Rightarrow> True | _ \<Rightarrow> False) | _ \<Rightarrow> False) l"

lemma reg_calls_kfrees [simp]: "reg_calls (rev (map (Mem \<circ> Kfree) ps) @ l) = reg_calls l"
  by (auto simp: reg_calls_def filter_empty_conv)

lemma reg_calls_Node [simp]:
  "reg_calls (Node (Cdev_add p n) # l) = Node (Cdev_add p n) # reg_calls l"
  "reg_calls (Node (Class_create cl) # l) = Node (Class_create cl) # reg_calls l"
  "reg_calls (Node (Class_destroy cl) # l) = Node (Class_destroy cl) # reg_calls l"
  "reg_calls (Node (Alloc_chrdev_region mi k) # l) = Node (Alloc_chrdev_region mi k) # reg_calls l"
  "reg_calls (Node (Unregister_chrdev_region n k) # l) = Node (Unregister_chrdev_region n k) # reg_calls l"
  by (simp_all add: reg_calls_def)

lemma reg_calls_Mem [simp]: "reg_calls (Mem m # l) = reg_calls l"
  by (simp add: reg_calls_def)

text \<open>The registrations of the character devices of the boards at the addresses \<open>ps\<close>, newest first.\<close>

definition cdev_adds :: "c_int \<Rightarrow> ptr list \<Rightarrow> klog" where
  "cdev_adds major ps = rev (map (\<lambda>i. Node (Cdev_add (ps ! i) (MKDEV major (of_nat i)))) [0..<length ps])"

lemma cdev_adds_Nil [simp]: "cdev_adds major [] = []"
  by (simp add: cdev_adds_def)

lemma cdev_adds_snoc [simp]:
  "cdev_adds major (ps @ [p]) = Node (Cdev_add p (MKDEV major (of_nat (length ps)))) # cdev_adds major ps"
  by (simp add: cdev_adds_def nth_append)

lemma length_cdev_adds [simp]: "length (cdev_adds major ps) = length ps"
  by (simp add: cdev_adds_def)

text \<open>The calls made between two states, and whether an allocation failed among them.\<close>

definition ran_short :: "kst \<Rightarrow> kst \<Rightarrow> bool" where
  "ran_short s t \<longleftrightarrow> (\<exists>new. k_log t = new @ k_log s \<and> Mem (Kzalloc NULL) \<in> set new)"

definition never_short :: "kst \<Rightarrow> kst \<Rightarrow> bool" where
  "never_short s t \<longleftrightarrow> (\<exists>new. k_log t = new @ k_log s \<and> Mem (Kzalloc NULL) \<notin> set new)"

lemma never_short_refl [simp]: "never_short s s"
  by (simp add: never_short_def)

lemma never_short_add: "never_short s t \<Longrightarrow> Mem (Kzalloc NULL) \<notin> set new \<Longrightarrow> k_log u = new @ k_log t \<Longrightarrow> never_short s u"
  by (fastforce simp: never_short_def intro: exI [of _ "new @ _"])

lemma ran_short_add: "never_short s t \<Longrightarrow> Mem (Kzalloc NULL) \<in> set new \<Longrightarrow> k_log u = new @ k_log t \<Longrightarrow> ran_short s u"
  by (fastforce simp: never_short_def ran_short_def intro: exI [of _ "new @ _"])

lemma short_before:
  assumes "k_log t = new @ k_log s"
  shows "ran_short t u \<Longrightarrow> ran_short s u"
    "never_short t u \<Longrightarrow> Mem (Kzalloc NULL) \<notin> set new \<Longrightarrow> never_short s u"
  using assms by (auto simp: ran_short_def never_short_def)

lemma never_not_ran_short: "never_short s t \<Longrightarrow> \<not> ran_short s t"
  by (auto simp: never_short_def ran_short_def)

text \<open>
  \<open>boards_made env cp c0 s0 ps s\<close>: since the state \<open>s0\<close>, in which the module structure at \<open>cp\<close> was \<open>c0\<close>
  with an empty table, the boards at the addresses \<open>ps\<close> have been made.
\<close>

definition boards_made :: "kenv \<Rightarrow> ptr \<Rightarrow> pcieuni_cdev \<Rightarrow> kst \<Rightarrow> ptr list \<Rightarrow> kst \<Rightarrow> bool" where
  "boards_made env cp c0 s0 ps s \<longleftrightarrow>
     k_cdev s = (k_cdev s0)(cp \<mapsto> c0\<lparr>pcieuni_dev_m := ps @ replicate (16 - length ps) NULL\<rparr>) \<and>
     distinct ps \<and> NULL \<notin> set ps \<and>
     (\<forall>i < length ps. k_dev s (ps ! i) = Some (fresh_board cp (PCIEUNI_MAJOR c0) i)) \<and>
     (\<forall>p. p \<notin> set ps \<longrightarrow> k_dev s p = k_dev s0 p) \<and>
     k_priv s = k_priv s0 \<and> k_drvdata s = k_drvdata s0 \<and>
     held env (k_log s) = held env (k_log s0) + mset (map RMem ps) \<and>
     reg_calls (k_log s) = cdev_adds (PCIEUNI_MAJOR c0) ps @ reg_calls (k_log s0) \<and>
     length (k_log s) = length (k_log s0) + 2 * length ps \<and> never_short s0 s"

lemma boards_madeD:
  assumes "boards_made env cp c0 s0 ps s"
  shows "k_cdev s = (k_cdev s0)(cp \<mapsto> c0\<lparr>pcieuni_dev_m := ps @ replicate (16 - length ps) NULL\<rparr>)"
    "distinct ps" "NULL \<notin> set ps"
    "\<And>i. i < length ps \<Longrightarrow> k_dev s (ps ! i) = Some (fresh_board cp (PCIEUNI_MAJOR c0) i)"
    "\<And>p. p \<notin> set ps \<Longrightarrow> k_dev s p = k_dev s0 p"
    "k_priv s = k_priv s0" "k_drvdata s = k_drvdata s0"
    "held env (k_log s) = held env (k_log s0) + mset (map RMem ps)"
    "reg_calls (k_log s) = cdev_adds (PCIEUNI_MAJOR c0) ps @ reg_calls (k_log s0)"
    "length (k_log s) = length (k_log s0) + 2 * length ps" "never_short s0 s"
  using assms by (simp_all add: boards_made_def)

lemma init_board_ok:
  assumes made: "boards_made env cp c0 s0 ps s" and "length ps < 16" "cp \<noteq> NULL" "PCIEUNI_MINOR c0 = 0"
    "\<And>l n. cdev_add_ret env l n = 0"
    and p: "kzalloc_ret env (k_log s) = p" "p \<noteq> NULL" "RMem p \<notin># held env (k_log s)"
  shows "\<exists>t. init_board env cp (length ps) s = Inr (None, t) \<and> boards_made env cp c0 s0 (ps @ [p]) t"
proof -
  let ?i = "length ps"
  let ?n = "MKDEV (PCIEUNI_MAJOR c0) (of_nat ?i)"
  let ?t = "s\<lparr>k_dev := (k_dev s)(p \<mapsto> fresh_board cp (PCIEUNI_MAJOR c0) ?i),
     k_cdev := (k_cdev s)(cp \<mapsto> c0\<lparr>pcieuni_dev_m := (ps @ [p]) @ replicate (16 - length (ps @ [p])) NULL\<rparr>),
     k_log := Node (Cdev_add p ?n) # Mem (Kzalloc p) # k_log s\<rparr>"
  note made = boards_madeD [OF made]
  have rep: "replicate (16 - ?i) NULL = NULL # replicate (15 - ?i) NULL"
    using assms(2) by (cases "16 - ?i") (auto simp: Suc_diff_le)
  then have tab: "(ps @ replicate (16 - ?i) NULL)[?i := p] = ps @ p # replicate (15 - ?i) NULL" by simp
  have "init_board env cp ?i s = Inr (None, ?t)"
    using assms(3-7) made(1)
    by (simp add: init_board_def kzalloc_dev_def km_simps kzalloc_run log_add_def set_dev_m_def tab Let_def
        fresh_board_def zero_dev_def)
  moreover have "boards_made env cp c0 s0 (ps @ [p]) ?t"
  proof -
    have "p \<notin> set ps" using p(3) made(8) by auto
    moreover have "never_short s0 ?t"
      using p(2) by (intro never_short_add [OF made(11), of "[Node (Cdev_add p ?n), Mem (Kzalloc p)]"]) simp_all
    ultimately show ?thesis using made p(2) by (auto simp: boards_made_def nth_append less_Suc_eq)
  qed
  ultimately show ?thesis by blast
qed


section \<open>Giving boards back\<close>

lemma held_kfrees: "held env (rev (map (Mem \<circ> Kfree) ps) @ l) = held env l - mset (map RMem ps)"
proof (induction ps arbitrary: l)
  case (Cons p ps)
  from Cons [of "Mem (Kfree p) # l"] show ?case by simp
qed simp

definition boards_freed :: "ptr list \<Rightarrow> 'z kst_scheme \<Rightarrow> 'z kst_scheme" where
  "boards_freed ps s = s\<lparr>k_dev := k_dev s |` (- set ps), k_log := rev (map (Mem \<circ> Kfree) ps) @ k_log s\<rparr>"

lemma boards_freed_Nil [simp]: "boards_freed [] s = s"
  by (simp add: boards_freed_def restrict_map_def)

lemma boards_freed_Cons:
  "boards_freed ps (log_add (Mem (Kfree p)) (s\<lparr>k_dev := (k_dev s)(p := None)\<rparr>)) = boards_freed (p # ps) s"
  by (simp add: boards_freed_def log_add_def restrict_map_def fun_eq_iff)

lemma boards_freed_cdev: "boards_freed ps (s\<lparr>k_cdev := m\<rparr>) = (boards_freed ps s)\<lparr>k_cdev := m\<rparr>"
  by (cases s) (simp add: boards_freed_def)

lemma free_boards_run:
  "cp \<noteq> NULL \<Longrightarrow> k_cdev s cp = Some c \<Longrightarrow> \<forall>k \<in> set ks. pcieuni_dev_m c ! k \<noteq> NULL \<Longrightarrow>
   free_boards cp ks s = Inr ((), boards_freed (map ((!) (pcieuni_dev_m c)) ks) s)"
proof (induction ks arbitrary: s)
  case Nil
  then show ?case by (simp add: km_simps)
next
  case (Cons k ks)
  let ?s = "log_add (Mem (Kfree (pcieuni_dev_m c ! k))) (s\<lparr>k_dev := (k_dev s)(pcieuni_dev_m c ! k := None)\<rparr>)"
  have "free_boards cp (k # ks) s = free_boards cp ks ?s"
    using Cons.prems by (simp add: km_simps kfree_dev_def)
  also have "\<dots> = Inr ((), boards_freed (map ((!) (pcieuni_dev_m c)) ks) ?s)"
    using Cons.prems by (intro Cons.IH) auto
  finally show ?case by (simp add: boards_freed_Cons)
qed

lemma cleanup_boards_run:
  "cp \<noteq> NULL \<Longrightarrow> k_cdev s cp = Some c \<Longrightarrow> \<forall>k \<in> set ks. k < length (pcieuni_dev_m c) \<and> pcieuni_dev_m c ! k \<noteq> NULL \<Longrightarrow>
   distinct ks \<Longrightarrow> \<exists>c'. cleanup_boards cp ks s = Inr ((),
     (boards_freed (map ((!) (pcieuni_dev_m c)) ks) s)\<lparr>k_cdev := (k_cdev s)(cp \<mapsto> c')\<rparr>)"
proof (induction ks arbitrary: s c)
  case Nil
  then show ?case by (intro exI [of _ c]) (simp add: km_simps fun_upd_idem)
next
  case (Cons k ks)
  let ?p = "pcieuni_dev_m c ! k"
  let ?s = "(log_add (Mem (Kfree ?p)) (s\<lparr>k_dev := (k_dev s)(?p := None)\<rparr>))\<lparr>k_cdev := (k_cdev s)(cp \<mapsto> set_dev_m k NULL c)\<rparr>"
  have "cleanup_boards cp (k # ks) s = cleanup_boards cp ks ?s"
    using Cons.prems by (simp add: km_simps kfree_dev_def log_add_def)
  moreover have tab: "map ((!) (pcieuni_dev_m (set_dev_m k NULL c))) ks = map ((!) (pcieuni_dev_m c)) ks"
    using Cons.prems(4) by (auto simp: set_dev_m_def) (metis nth_list_update_neq)
  have "\<exists>c'. cleanup_boards cp ks ?s = Inr ((),
      (boards_freed (map ((!) (pcieuni_dev_m (set_dev_m k NULL c))) ks) ?s)\<lparr>k_cdev := (k_cdev ?s)(cp \<mapsto> c')\<rparr>)"
    using Cons.prems by (intro Cons.IH) (auto simp: set_dev_m_def nth_list_update)
  then have "\<exists>c'. cleanup_boards cp ks ?s = Inr ((),
      (boards_freed (map ((!) (pcieuni_dev_m c)) (k # ks)) s)\<lparr>k_cdev := (k_cdev s)(cp \<mapsto> c')\<rparr>)"
    unfolding tab boards_freed_cdev boards_freed_Cons by simp
  ultimately show ?case by (simp only:)
qed

text \<open>
  Memory runs out before the table is full: every board and the module structure are given back,
  the class, the device numbers and the character devices are not.
\<close>

definition boards_undone :: "kenv \<Rightarrow> ptr \<Rightarrow> c_int \<Rightarrow> kst \<Rightarrow> kst \<Rightarrow> bool" where
  "boards_undone env cp major s0 t \<longleftrightarrow> k_cdev t = (k_cdev s0)(cp := None) \<and> k_dev t \<subseteq>\<^sub>m k_dev s0 \<and>
     k_priv t = k_priv s0 \<and> k_drvdata t = k_drvdata s0 \<and>
     held env (k_log t) = held env (k_log s0) - {#RMem cp#} \<and>
     (\<exists>ps. length ps < 16 \<and> reg_calls (k_log t) = cdev_adds major ps @ reg_calls (k_log s0)) \<and> ran_short s0 t"

lemma init_board_fails:
  assumes made: "boards_made env cp c0 s0 ps s" and "length ps < 16" "cp \<noteq> NULL"
    "kzalloc_ret env (k_log s) = NULL"
  shows "\<exists>t. init_board env cp (length ps) s = Inr (Some (- ENOMEM), t) \<and> boards_undone env cp (PCIEUNI_MAJOR c0) s0 t"
proof -
  note made = boards_madeD [OF made]
  let ?c = "c0\<lparr>pcieuni_dev_m := ps @ replicate (16 - length ps) NULL\<rparr>"
  let ?s = "log_add (Mem (Kzalloc NULL)) s"
  let ?s' = "?s\<lparr>k_cdev := (k_cdev s)(cp \<mapsto> set_dev_m (length ps) NULL ?c)\<rparr>"
  have same: "set_dev_m (length ps) NULL ?c = ?c"
    using assms(2) by (simp add: set_dev_m_def list_update_append) (simp add: list_update_same_conv)
  have take: "map ((!) (pcieuni_dev_m ?c)) [0..<length ps] = ps"
    by (rule nth_equalityI) (simp_all add: nth_append)
  have "free_boards cp [0..<length ps] ?s' = Inr ((), boards_freed (map ((!) (pcieuni_dev_m ?c)) [0..<length ps]) ?s')"
    using made(3) assms(3) same by (intro free_boards_run) (auto simp: nth_append in_set_conv_nth)
  then have free: "free_boards cp [0..<length ps] ?s' = Inr ((), boards_freed ps ?s')" by (simp only: take)
  have "init_board env cp (length ps) s = Inr (Some (- ENOMEM),
      log_add (Mem (Kfree cp)) ((boards_freed ps ?s')\<lparr>k_cdev := (k_cdev ?s')(cp := None)\<rparr>))"
    using assms(3,4) made(1) free
    by (simp add: init_board_def kzalloc_dev_def km_simps kzalloc_run kfree_cdev_def boards_freed_def log_add_def)
  moreover have "k_dev s |` (- set ps) \<subseteq>\<^sub>m k_dev s0"
    using made(5) by (auto simp: map_le_def restrict_map_def split: if_splits)
  moreover have "ran_short s0 (log_add (Mem (Kfree cp)) ((boards_freed ps ?s')\<lparr>k_cdev := (k_cdev ?s')(cp := None)\<rparr>))"
    by (intro ran_short_add [OF made(11), of "Mem (Kfree cp) # rev (map (Mem \<circ> Kfree) ps) @ [Mem (Kzalloc NULL)]"])
      (simp_all add: boards_freed_def log_add_def)
  moreover have "\<exists>ps'. length ps' < 16 \<and> cdev_adds (PCIEUNI_MAJOR c0) ps = cdev_adds (PCIEUNI_MAJOR c0) ps'"
    using assms(2) by blast
  ultimately show ?thesis
    using made(1-10) by (auto simp: boards_undone_def boards_freed_def log_add_def held_kfrees)
qed


text \<open>The loop either fills the table or, when memory runs out, gives everything back.\<close>

lemma init_boards_run:
  assumes "alloc_sound env" "cp \<noteq> NULL" "PCIEUNI_MINOR c0 = 0" "\<And>l n. cdev_add_ret env l n = 0"
    "length (k_log s0) < 2 ^ 62"
  shows "boards_made env cp c0 s0 ps s \<Longrightarrow> length ps \<le> 16 \<Longrightarrow>
   (\<exists>qs t. length (ps @ qs) = 16 \<and> init_boards env cp [length ps..<16] s = Inr (0, t) \<and>
      boards_made env cp c0 s0 (ps @ qs) t) \<or>
   (\<exists>t. init_boards env cp [length ps..<16] s = Inr (- ENOMEM, t) \<and> boards_undone env cp (PCIEUNI_MAJOR c0) s0 t \<and>
      (\<exists>l. length l < 2 ^ 63 \<and> kzalloc_ret env l = NULL))"
proof (induction "16 - length ps" arbitrary: ps s)
  case 0
  then have "length ps = 16" by simp
  with 0 show ?case by (intro disjI1 exI [of _ "[]"] exI [of _ s]) (simp add: km_simps)
next
  case (Suc n)
  then have lt: "length ps < 16" by simp
  note upt = upt_conv_Cons [OF lt]
  have small: "length (k_log s) < 2 ^ 63" using boards_madeD(10) [OF Suc.prems(1)] assms(5) lt by simp
  show ?case
  proof (cases "kzalloc_ret env (k_log s) = NULL")
    case True
    from init_board_fails [OF Suc.prems(1) lt assms(2) True] True small show ?thesis
      by (intro disjI2) (auto simp: upt km_simps simp del: upt_Suc)
  next
    case False
    let ?p = "kzalloc_ret env (k_log s)"
    from False small assms(1) have "RMem ?p \<notin># held env (k_log s)" by (auto simp: alloc_sound_def)
    from init_board_ok [OF Suc.prems(1) lt assms(2-4) refl False this] obtain u where
      u: "init_board env cp (length ps) s = Inr (None, u)" "boards_made env cp c0 s0 (ps @ [?p]) u" by blast
    have go: "init_boards env cp [length ps..<16] s = init_boards env cp [length (ps @ [?p])..<16] u"
      using u(1) by (simp add: upt km_simps del: upt_Suc)
    have "n = 16 - length (ps @ [?p])" "length (ps @ [?p]) \<le> 16" using Suc.hyps(2) lt by auto
    from Suc.hyps(1) [OF this(1) u(2) this(2)] show ?thesis unfolding go
    proof (elim disjE exE conjE, goal_cases)
      case (1 qs t)
      then show ?case by (intro disjI1 exI [of _ "?p # qs"] exI [of _ t]) simp
    qed blast
  qed
qed


section \<open>Initialisation and clean-up\<close>

text \<open>The module structure before the first board is made.\<close>

definition module_cdev :: "kenv \<Rightarrow> string \<Rightarrow> string \<Rightarrow> klog \<Rightarrow> pcieuni_cdev" where
  "module_cdev env base_version owner_version l = zero_cdev\<lparr>
     PCIEUNI_MAJOR := alloc_chrdev_major env l,
     pcieuni_class := class_create_ret env (Node (Alloc_chrdev_region 0 16) # l),
     GPCIEUNI_VER_MAJ := ucast (simple_strtol_ret env base_version),
     GPCIEUNI_VER_MIN := ucast (simple_strtol_ret env (drop 3 base_version)),
     PCIEUNI_DRV_VER_MAJ := ucast (simple_strtol_ret env owner_version),
     PCIEUNI_DRV_VER_MIN := ucast (simple_strtol_ret env (drop 3 owner_version))\<rparr>"

definition module_start :: "kenv \<Rightarrow> string \<Rightarrow> string \<Rightarrow> kst \<Rightarrow> kst" where
  "module_start env base_version owner_version s =
     (let cp = kzalloc_ret env (k_log s); l = Mem (Kzalloc cp) # k_log s;
          c = module_cdev env base_version owner_version l
      in s\<lparr>k_log := Node (Class_create (pcieuni_class c)) # Node (Alloc_chrdev_region 0 16) # l,
           k_cdev := (k_cdev s)(cp \<mapsto> c)\<rparr>)"

lemma init_module_start:
  assumes "cp = kzalloc_ret env (k_log s)" "cp \<noteq> NULL" "3 \<le> length bv" "3 \<le> length ov"
    "c = module_cdev env bv ov (Mem (Kzalloc cp) # k_log s)"
    "init_boards env cp [0..<16] (module_start env bv ov s) = Inr (r, t)"
  shows "pcieuni_init_module_exp env pp bv ov s = Inr ((r, cp), t)"
    "boards_made env cp c (module_start env bv ov s) [] (module_start env bv ov s)"
    "k_cdev (module_start env bv ov s) = (k_cdev s)(cp \<mapsto> c)"
    "k_dev (module_start env bv ov s) = k_dev s" "k_priv (module_start env bv ov s) = k_priv s"
    "k_drvdata (module_start env bv ov s) = k_drvdata s"
    "k_log (module_start env bv ov s) =
      Node (Class_create (pcieuni_class c)) # Node (Alloc_chrdev_region 0 16) # Mem (Kzalloc cp) # k_log s"
proof -
  let ?s = "module_start env bv ov s"
  have "pcieuni_init_module_exp env pp bv ov s = kbind (init_boards env cp [0..<16]) (\<lambda>r. kret (r, cp)) ?s"
    using assms(1-4)
    by (simp add: pcieuni_init_module_exp_def kzalloc_cdev_def km_simps kzalloc_run log_add_def read_version_def
        module_start_def module_cdev_def zero_cdev_def Let_def del: upt_Suc)
  then show "pcieuni_init_module_exp env pp bv ov s = Inr ((r, cp), t)" using assms(6) by (simp add: km_simps)
  have "replicate 16 NULL = pcieuni_dev_m c" by (simp add: assms(5) module_cdev_def zero_cdev_def)
  then have "c\<lparr>pcieuni_dev_m := replicate 16 NULL\<rparr> = c" by simp
  then show "boards_made env cp c ?s [] ?s" by (simp add: boards_made_def module_start_def assms(1,5) Let_def)
  show "k_cdev ?s = (k_cdev s)(cp \<mapsto> c)" "k_dev ?s = k_dev s" "k_priv ?s = k_priv s" "k_drvdata ?s = k_drvdata s"
    "k_log ?s = Node (Class_create (pcieuni_class c)) # Node (Alloc_chrdev_region 0 16) # Mem (Kzalloc cp) # k_log s"
    by (simp_all add: module_start_def assms(1,5) Let_def)
qed


text \<open>What initialisation relies on, but for the memory.\<close>

definition init_ready :: "kenv \<Rightarrow> string \<Rightarrow> string \<Rightarrow> kst \<Rightarrow> bool" where
  "init_ready env bv ov s \<longleftrightarrow> (\<forall>l n. cdev_add_ret env l n = 0) \<and> 3 \<le> length bv \<and> 3 \<le> length ov \<and>
     length (k_log s) < 2 ^ 61"

text \<open>The module structure with a full table, and what was added to the state for it.\<close>

definition module_up :: "kenv \<Rightarrow> ptr \<Rightarrow> pcieuni_cdev \<Rightarrow> kst \<Rightarrow> kst \<Rightarrow> bool" where
  "module_up env cp c s t \<longleftrightarrow> cp = kzalloc_ret env (k_log s) \<and> cp \<noteq> NULL \<and>
     PCIEUNI_MAJOR c = alloc_chrdev_major env (Mem (Kzalloc cp) # k_log s) \<and>
     pcieuni_class c = class_create_ret env (Node (Alloc_chrdev_region 0 16) # Mem (Kzalloc cp) # k_log s) \<and>
     never_short s t \<and> k_cdev t = (k_cdev s)(cp \<mapsto> c) \<and> PCIEUNI_MINOR c = 0 \<and> pcieuniModuleNum c = 0 \<and>
     length (pcieuni_dev_m c) = 16 \<and> distinct (pcieuni_dev_m c) \<and> NULL \<notin> set (pcieuni_dev_m c) \<and>
     (\<forall>i < 16. k_dev t (pcieuni_dev_m c ! i) = Some (fresh_board cp (PCIEUNI_MAJOR c) i)) \<and>
     (\<forall>p. p \<notin> set (pcieuni_dev_m c) \<longrightarrow> k_dev t p = k_dev s p) \<and>
     held env (k_log t) = held env (k_log s) + {#RMem cp#} + mset (map RMem (pcieuni_dev_m c)) \<and>
     reg_calls (k_log t) = cdev_adds (PCIEUNI_MAJOR c) (pcieuni_dev_m c) @
       [Node (Class_create (pcieuni_class c)), Node (Alloc_chrdev_region 0 16)] @ reg_calls (k_log s)"

lemma module_upD:
  assumes "module_up env cp c s t"
  shows "cp \<noteq> NULL" "k_cdev t = (k_cdev s)(cp \<mapsto> c)" "PCIEUNI_MINOR c = 0" "pcieuniModuleNum c = 0"
    "length (pcieuni_dev_m c) = 16" "distinct (pcieuni_dev_m c)" "NULL \<notin> set (pcieuni_dev_m c)"
    "\<And>i. i < 16 \<Longrightarrow> k_dev t (pcieuni_dev_m c ! i) = Some (fresh_board cp (PCIEUNI_MAJOR c) i)"
    "\<And>p. p \<notin> set (pcieuni_dev_m c) \<Longrightarrow> k_dev t p = k_dev s p"
    "held env (k_log t) = held env (k_log s) + {#RMem cp#} + mset (map RMem (pcieuni_dev_m c))"
    "reg_calls (k_log t) = cdev_adds (PCIEUNI_MAJOR c) (pcieuni_dev_m c) @
       [Node (Class_create (pcieuni_class c)), Node (Alloc_chrdev_region 0 16)] @ reg_calls (k_log s)"
    "never_short s t"
  using assms unfolding module_up_def by blast+

lemma module_up_registered:
  assumes "module_up env cp c s t"
  shows "cp = kzalloc_ret env (k_log s)" "PCIEUNI_MAJOR c = alloc_chrdev_major env (Mem (Kzalloc cp) # k_log s)"
    "pcieuni_class c = class_create_ret env (Node (Alloc_chrdev_region 0 16) # Mem (Kzalloc cp) # k_log s)"
  using assms unfolding module_up_def by blast+

lemma init_cases:
  assumes "alloc_sound env" "init_ready env bv ov s" "cp = kzalloc_ret env (k_log s)" "cp \<noteq> NULL"
  shows "(\<exists>c t. pcieuni_init_module_exp env pp bv ov s = Inr ((0, cp), t) \<and> module_up env cp c s t) \<or>
    (\<exists>t ps l. pcieuni_init_module_exp env pp bv ov s = Inr ((- ENOMEM, cp), t) \<and>
      k_cdev t = (k_cdev s)(cp := None) \<and> k_dev t \<subseteq>\<^sub>m k_dev s \<and> held env (k_log t) = held env (k_log s) \<and>
      length ps < 16 \<and>
      reg_calls (k_log t) = cdev_adds (alloc_chrdev_major env (Mem (Kzalloc cp) # k_log s)) ps @
        [Node (Class_create (class_create_ret env (Node (Alloc_chrdev_region 0 16) # Mem (Kzalloc cp) # k_log s))),
         Node (Alloc_chrdev_region 0 16)] @ reg_calls (k_log s) \<and>
      ran_short s t \<and> length l < 2 ^ 63 \<and> kzalloc_ret env l = NULL)"
proof -
  let ?c = "module_cdev env bv ov (Mem (Kzalloc cp) # k_log s)"
  let ?s = "module_start env bv ov s"
  note ready = assms(2) [unfolded init_ready_def]
  have made: "boards_made env cp ?c ?s [] ?s" and log: "length (k_log ?s) < 2 ^ 62"
    using assms(3) ready by (simp_all add: boards_made_def module_start_def module_cdev_def zero_cdev_def Let_def)
  have minor: "PCIEUNI_MINOR ?c = 0" "pcieuniModuleNum ?c = 0" by (simp_all add: module_cdev_def zero_cdev_def)
  have regs: "PCIEUNI_MAJOR ?c = alloc_chrdev_major env (Mem (Kzalloc cp) # k_log s)"
    "pcieuni_class ?c = class_create_ret env (Node (Alloc_chrdev_region 0 16) # Mem (Kzalloc cp) # k_log s)"
    by (simp_all add: module_cdev_def)
  have upto: "k_log ?s = [Node (Class_create (pcieuni_class ?c)), Node (Alloc_chrdev_region 0 16), Mem (Kzalloc cp)] @ k_log s"
    by (simp add: module_start_def assms(3) Let_def)
  note since = short_before [OF upto]
  note start = init_module_start [OF assms(3,4), of bv ov ?c]
  from init_boards_run [OF assms(1,4) minor(1) _ log made] ready consider
      ps t where "length ps = 16" "init_boards env cp [0..<16] ?s = Inr (0, t)" "boards_made env cp ?c ?s ps t"
    | t l where "init_boards env cp [0..<16] ?s = Inr (- ENOMEM, t)" "boards_undone env cp (PCIEUNI_MAJOR ?c) ?s t"
        "length l < 2 ^ 63" "kzalloc_ret env l = NULL"
    by (auto simp del: upt_Suc)
  then show ?thesis
  proof cases
    case 1
    note st = start [OF _ _ refl 1(2)] and m = boards_madeD [OF 1(3)]
    from ready have st: "pcieuni_init_module_exp env pp bv ov s = Inr ((0, cp), t)" "k_cdev ?s = (k_cdev s)(cp \<mapsto> ?c)"
        "k_dev ?s = k_dev s" "k_log ?s = Node (Class_create (pcieuni_class ?c)) # Node (Alloc_chrdev_region 0 16) # Mem (Kzalloc cp) # k_log s"
      using st by simp_all
    have "module_up env cp (?c\<lparr>pcieuni_dev_m := ps\<rparr>) s t"
      unfolding module_up_def using m 1(1) st(2-) assms(3,4) minor regs since(2) [OF m(11)] by simp
    with st(1) show ?thesis by blast
  next
    case 2
    note st = start [OF _ _ refl 2(1)]
    from ready have st: "pcieuni_init_module_exp env pp bv ov s = Inr ((- ENOMEM, cp), t)" "k_cdev ?s = (k_cdev s)(cp \<mapsto> ?c)"
        "k_dev ?s = k_dev s" "k_log ?s = Node (Class_create (pcieuni_class ?c)) # Node (Alloc_chrdev_region 0 16) # Mem (Kzalloc cp) # k_log s"
      using st by simp_all
    note undone = 2(2) [unfolded boards_undone_def]
    then obtain ps where ps: "length ps < 16"
      "reg_calls (k_log t) = cdev_adds (PCIEUNI_MAJOR ?c) ps @ reg_calls (k_log ?s)" by blast
    have "ran_short s t" using undone since(1) by blast
    with undone ps 2(3,4) assms(4) st regs show ?thesis
      by (intro disjI2 exI [of _ t] exI [of _ ps] exI [of _ l]) simp
  qed
qed

lemma init_up:
  assumes "alloc_fresh env" "init_ready env bv ov s"
  shows "\<exists>cp c t. pcieuni_init_module_exp env pp bv ov s = Inr ((0, cp), t) \<and> module_up env cp c s t"
proof -
  have "kzalloc_ret env l \<noteq> NULL" if "length l < 2 ^ 63" for l using assms(1) that by (simp add: alloc_fresh_def)
  moreover from this have "kzalloc_ret env (k_log s) \<noteq> NULL" using assms(2) by (simp add: init_ready_def)
  ultimately show ?thesis using init_cases [OF alloc_fresh_sound [OF assms(1)] assms(2) refl, of pp] by blast
qed

text \<open>
  C11: initialisation with enough memory returns 0 and delivers a module structure whose table holds
  sixteen different boards: the boards 0 to 14 free, with their own numbers, device numbers and no
  open file, and the null device in the last place, marked as bound so that no device is ever bound
  to it. Memory that was in use is not touched, and the module holds exactly the structures of the
  table and its own.
\<close>

theorem init_creates_boards:
  assumes "alloc_fresh env" "init_ready env bv ov s"
  shows "\<exists>cp c t. pcieuni_init_module_exp env pp bv ov s = Inr ((0, cp), t) \<and> cp \<noteq> NULL \<and> k_cdev t cp = Some c \<and>
    length (pcieuni_dev_m c) = 16 \<and> distinct (pcieuni_dev_m c) \<and> NULL \<notin> set (pcieuni_dev_m c) \<and>
    (\<forall>i < 16. \<exists>d. k_dev t (pcieuni_dev_m c ! i) = Some d \<and> brd_num d = of_nat i \<and> dev_minor d = of_nat i \<and>
      dev_num d = MKDEV (PCIEUNI_MAJOR c) (of_nat i) \<and> parent_dev d = cp \<and> dev_sts d = 0 \<and> \<not> dev_mut d \<and>
      dev_file_list d = [] \<and> dev_file_ref d = 0 \<and>
      (if i < 15 then binded d = 0 \<and> null_dev d = 0 else binded d = 1 \<and> null_dev d = 1)) \<and>
    (\<forall>p. p \<notin> set (pcieuni_dev_m c) \<longrightarrow> k_dev t p = k_dev s p) \<and>
    held env (k_log t) = held env (k_log s) + {#RMem cp#} + mset (map RMem (pcieuni_dev_m c))"
proof -
  from init_up [OF assms, of pp] obtain cp c t where
    "pcieuni_init_module_exp env pp bv ov s = Inr ((0, cp), t)" and up: "module_up env cp c s t" by blast
  moreover have "\<exists>d. k_dev t (pcieuni_dev_m c ! i) = Some d \<and> brd_num d = of_nat i \<and> dev_minor d = of_nat i \<and>
      dev_num d = MKDEV (PCIEUNI_MAJOR c) (of_nat i) \<and> parent_dev d = cp \<and> dev_sts d = 0 \<and> \<not> dev_mut d \<and>
      dev_file_list d = [] \<and> dev_file_ref d = 0 \<and>
      (if i < 15 then binded d = 0 \<and> null_dev d = 0 else binded d = 1 \<and> null_dev d = 1)" if "i < 16" for i
    using module_upD(8) [OF up that] that by (auto simp: fresh_board_def zero_dev_def)
  ultimately show ?thesis using module_upD [OF up] by (intro exI [of _ cp] exI [of _ c] exI [of _ t]) simp
qed

lemma alloc_kernel_ready: "init_ready alloc_kernel ''1.04'' ''0.11'' empty_kst"
  by (simp add: init_ready_def alloc_kernel_def quiet_kernel_def empty_kst_def)

theorem init_creates_boards_witness:
  "\<exists>cp c t. pcieuni_init_module_exp alloc_kernel 0 ''1.04'' ''0.11'' empty_kst = Inr ((0, cp), t) \<and>
     k_cdev t cp = Some c \<and> length (pcieuni_dev_m c) = 16 \<and> distinct (pcieuni_dev_m c)"
  using init_creates_boards [OF alloc_kernel_fresh alloc_kernel_ready, of 0] by blast

text \<open>The clean-up of a module whose table is full.\<close>

lemma cleanup_table:
  assumes "cp \<noteq> NULL" "k_cdev t cp = Some c" "length (pcieuni_dev_m c) = 16" "NULL \<notin> set (pcieuni_dev_m c)"
  shows "\<exists>u. pcieuni_cleanup_module_exp cp t = Inr (NULL, u) \<and>
    k_cdev u = (k_cdev t)(cp := None) \<and> k_dev u = k_dev t |` (- set (pcieuni_dev_m c)) \<and>
    k_log u = Mem (Kfree cp) # rev (map (Mem \<circ> Kfree) (pcieuni_dev_m c)) @ [Node (Class_destroy (pcieuni_class c)),
      Node (Unregister_chrdev_region (MKDEV (PCIEUNI_MAJOR c) (PCIEUNI_MINOR c)) 16)] @ k_log t"
proof -
  let ?new = "[Node (Class_destroy (pcieuni_class c)),
    Node (Unregister_chrdev_region (MKDEV (PCIEUNI_MAJOR c) (PCIEUNI_MINOR c)) 16)]"
  let ?t = "t\<lparr>k_log := ?new @ k_log t\<rparr>"
  let ?ps = "pcieuni_dev_m c"
  have "map ((!) ?ps) [0..<16] = ?ps" using assms(3) map_nth [of ?ps] by (simp del: upt_Suc)
  moreover have "\<exists>c'. cleanup_boards cp [0..<16] ?t = Inr ((), (boards_freed (map ((!) ?ps) [0..<16]) ?t)\<lparr>k_cdev := (k_cdev ?t)(cp \<mapsto> c')\<rparr>)"
    using assms by (intro cleanup_boards_run) (auto simp: in_set_conv_nth simp del: upt_Suc)
  ultimately obtain c' where
    run: "cleanup_boards cp [0..<16] ?t = Inr ((), (boards_freed ?ps ?t)\<lparr>k_cdev := (k_cdev ?t)(cp \<mapsto> c')\<rparr>)"
    by auto
  let ?u = "log_add (Mem (Kfree cp)) ((boards_freed ?ps ?t)\<lparr>k_cdev := (k_cdev t)(cp := None)\<rparr>)"
  have "pcieuni_cleanup_module_exp cp t = Inr (NULL, ?u)"
    using assms(1,2) run by (simp add: pcieuni_cleanup_module_exp_def km_simps kfree_cdev_def log_add_def del: upt_Suc)
  then show ?thesis by (intro exI [of _ ?u]) (simp add: boards_freed_def)
qed

lemma cleanup_run:
  assumes "module_up env cp c s t"
  shows "\<exists>u. pcieuni_cleanup_module_exp cp t = Inr (NULL, u) \<and> held env (k_log u) = held env (k_log s) \<and>
    k_cdev u = (k_cdev s)(cp := None) \<and> k_dev u = k_dev s |` (- set (pcieuni_dev_m c)) \<and>
    reg_calls (k_log u) = [Node (Class_destroy (pcieuni_class c)),
      Node (Unregister_chrdev_region (MKDEV (PCIEUNI_MAJOR c) 0) 16)] @ reg_calls (k_log t)"
proof -
  note up = module_upD [OF assms]
  from cleanup_table [of cp t c] up obtain u where u: "pcieuni_cleanup_module_exp cp t = Inr (NULL, u)"
    "k_cdev u = (k_cdev t)(cp := None)" "k_dev u = k_dev t |` (- set (pcieuni_dev_m c))"
    "k_log u = Mem (Kfree cp) # rev (map (Mem \<circ> Kfree) (pcieuni_dev_m c)) @ [Node (Class_destroy (pcieuni_class c)),
      Node (Unregister_chrdev_region (MKDEV (PCIEUNI_MAJOR c) (PCIEUNI_MINOR c)) 16)] @ k_log t" by auto
  have "k_dev u = k_dev s |` (- set (pcieuni_dev_m c))"
    using up(9) by (auto simp: u(3) restrict_map_def fun_eq_iff)
  then show ?thesis using u up(2,3,10) by (intro exI [of _ u]) (simp add: held_kfrees)
qed

text \<open>
  C12: cleaning up after initialisation frees every board and the module structure, and nothing else:
  what the driver holds of memory is what it held before, and the module pointer is null again.
  The class that \<open>class_create\<close> delivered is destroyed, and the sixteen device numbers of the major
  number that \<open>alloc_chrdev_region\<close> delivered are unregistered. What is left is the registration of
  the sixteen character devices, one per board with its own device number: it was made by
  \<open>cdev_add\<close>, is undone by no call, and refers to boards that are no longer allocated.
\<close>

theorem init_cleanup_roundtrip:
  assumes "alloc_fresh env" "init_ready env bv ov s"
    and cp: "cp = kzalloc_ret env (k_log s)"
    and ma: "ma = alloc_chrdev_major env (Mem (Kzalloc cp) # k_log s)"
    and cl: "cl = class_create_ret env (Node (Alloc_chrdev_region 0 16) # Mem (Kzalloc cp) # k_log s)"
  shows "\<exists>ps t u. pcieuni_init_module_exp env pp bv ov s = Inr ((0, cp), t) \<and>
    pcieuni_cleanup_module_exp cp t = Inr (NULL, u) \<and> held env (k_log u) = held env (k_log s) \<and>
    k_cdev u = (k_cdev s)(cp := None) \<and> length ps = 16 \<and> distinct ps \<and> k_dev u = k_dev s |` (- set ps) \<and>
    reg_calls (k_log u) = [Node (Class_destroy cl), Node (Unregister_chrdev_region (MKDEV ma 0) 16)] @
      rev (map (\<lambda>i. Node (Cdev_add (ps ! i) (MKDEV ma (of_nat i)))) [0..<16]) @
      [Node (Class_create cl), Node (Alloc_chrdev_region 0 16)] @ reg_calls (k_log s)"
proof -
  from init_up [OF assms(1,2), of pp] obtain cp' c t where
    init: "pcieuni_init_module_exp env pp bv ov s = Inr ((0, cp'), t)" and up: "module_up env cp' c s t" by blast
  have reg: "cp' = cp" "PCIEUNI_MAJOR c = ma" "pcieuni_class c = cl"
    using module_up_registered [OF up] by (simp_all add: cp ma cl)
  from cleanup_run [OF up] obtain u where "pcieuni_cleanup_module_exp cp t = Inr (NULL, u)"
    "held env (k_log u) = held env (k_log s)" "k_cdev u = (k_cdev s)(cp := None)"
    "k_dev u = k_dev s |` (- set (pcieuni_dev_m c))"
    "reg_calls (k_log u) = [Node (Class_destroy cl), Node (Unregister_chrdev_region (MKDEV ma 0) 16)] @ reg_calls (k_log t)"
    unfolding reg by blast
  moreover have "reg_calls (k_log t) = rev (map (\<lambda>i. Node (Cdev_add (pcieuni_dev_m c ! i) (MKDEV ma (of_nat i)))) [0..<16]) @
      [Node (Class_create cl), Node (Alloc_chrdev_region 0 16)] @ reg_calls (k_log s)"
    using module_upD(5,11) [OF up] reg by (simp add: cdev_adds_def del: upt_Suc)
  ultimately show ?thesis using init reg(1) module_upD(5,6) [OF up]
    by (intro exI [of _ "pcieuni_dev_m c"] exI [of _ t] exI [of _ u]) (simp del: upt_Suc)
qed

theorem init_cleanup_roundtrip_witness:
  "\<exists>cp t u ps. pcieuni_init_module_exp alloc_kernel 0 ''1.04'' ''0.11'' empty_kst = Inr ((0, cp), t) \<and>
     pcieuni_cleanup_module_exp cp t = Inr (NULL, u) \<and> held alloc_kernel (k_log u) = {#} \<and>
     reg_calls (k_log u) = [Node (Class_destroy 0x800), Node (Unregister_chrdev_region (MKDEV 240 0) 16)] @
      rev (map (\<lambda>i. Node (Cdev_add (ps ! i) (MKDEV 240 (of_nat i)))) [0..<16]) @
      [Node (Class_create 0x800), Node (Alloc_chrdev_region 0 16)]"
proof -
  have "alloc_chrdev_major alloc_kernel l = 240" "class_create_ret alloc_kernel l = 0x800" for l
    by (simp_all add: alloc_kernel_def quiet_kernel_def)
  moreover have "reg_calls (k_log empty_kst) = []" "held alloc_kernel (k_log empty_kst) = {#}"
    by (simp_all add: empty_kst_def reg_calls_def)
  ultimately show ?thesis
    using init_cleanup_roundtrip [OF alloc_kernel_fresh alloc_kernel_ready refl refl refl, of 0]
    by (simp only: append_Nil2) blast
qed

text \<open>
  C40: initialisation returns 0 when no allocation it makes fails, and then the table of the module
  structure is full: sixteen different boards, all allocated and held. When an allocation fails,
  it returns -ENOMEM, and no memory is held that was not held before. When it was the module
  structure itself that could not be had, nothing else has happened. When it was a board, the
  module pointer refers to the structure that has been freed, the class, the device numbers and
  the character devices of the boards made before stay registered, and a clean-up through the
  pointer faults.
\<close>

theorem init_out_of_memory:
  assumes "alloc_sound env" "init_ready env bv ov s"
  shows "\<exists>r cp t new. pcieuni_init_module_exp env pp bv ov s = Inr ((r, cp), t) \<and> k_log t = new @ k_log s \<and>
    (if Mem (Kzalloc NULL) \<notin> set new
     then r = 0 \<and> (\<exists>c. k_cdev t = (k_cdev s)(cp \<mapsto> c) \<and> length (pcieuni_dev_m c) = 16 \<and>
       distinct (pcieuni_dev_m c) \<and> NULL \<notin> set (pcieuni_dev_m c) \<and>
       (\<forall>i < 16. k_dev t (pcieuni_dev_m c ! i) = Some (fresh_board cp (PCIEUNI_MAJOR c) i)) \<and>
       held env (k_log t) = held env (k_log s) + {#RMem cp#} + mset (map RMem (pcieuni_dev_m c)))
     else r = - ENOMEM \<and> held env (k_log t) = held env (k_log s) \<and> k_dev t \<subseteq>\<^sub>m k_dev s \<and>
       (if kzalloc_ret env (k_log s) = NULL then cp = pp \<and> t = log_add (Mem (Kzalloc NULL)) s
        else cp \<noteq> NULL \<and> k_cdev t cp = None \<and> pcieuni_cleanup_module_exp cp t = Inl NullDeref \<and>
          (\<exists>ps. length ps < 16 \<and>
            reg_calls (k_log t) = cdev_adds (alloc_chrdev_major env (Mem (Kzalloc cp) # k_log s)) ps @
              [Node (Class_create (class_create_ret env (Node (Alloc_chrdev_region 0 16) # Mem (Kzalloc cp) # k_log s))),
               Node (Alloc_chrdev_region 0 16)] @ reg_calls (k_log s))))"
proof (cases "kzalloc_ret env (k_log s) = NULL")
  case True
  then have "pcieuni_init_module_exp env pp bv ov s = Inr ((- ENOMEM, pp), log_add (Mem (Kzalloc NULL)) s)"
    by (simp add: pcieuni_init_module_exp_def kzalloc_cdev_def km_simps kzalloc_run)
  with True show ?thesis
    by (intro exI [of _ "- ENOMEM"] exI [of _ pp] exI [of _ "log_add (Mem (Kzalloc NULL)) s"] exI [of _ "[Mem (Kzalloc NULL)]"])
      (simp add: map_le_def)
next
  case False
  have gone: "pcieuni_cleanup_module_exp cp t = Inl NullDeref" if "k_cdev t cp = None" for cp t
    using that by (simp add: pcieuni_cleanup_module_exp_def get_cdev_def kbind_def)
  from init_cases [OF assms refl False, of pp] show ?thesis
  proof (elim disjE exE conjE, goal_cases)
    case (1 c t)
    note up = module_upD [OF 1(2)]
    from up(12) obtain new where new: "k_log t = new @ k_log s" "Mem (Kzalloc NULL) \<notin> set new"
      by (auto simp: never_short_def)
    with 1(1) up(2,5-8,10) show ?case
      by (intro exI [of _ 0] exI [of _ "kzalloc_ret env (k_log s)"] exI [of _ t] exI [of _ new]) auto
  next
    case (2 t ps l)
    then obtain new where new: "k_log t = new @ k_log s" "Mem (Kzalloc NULL) \<in> set new"
      by (auto simp: ran_short_def)
    from 2(2) have none: "k_cdev t (kzalloc_ret env (k_log s)) = None" by simp
    from new 2(1,3-6) False gone [OF none] none show ?case
      by (intro exI [of _ "- ENOMEM"] exI [of _ "kzalloc_ret env (k_log s)"] exI [of _ t] exI [of _ new]) auto
  qed
qed

text \<open>Memory for the module structure only.\<close>

definition short_kernel :: kenv where
  "short_kernel = quiet_kernel\<lparr>kzalloc_ret := (\<lambda>l. if l = [] then 0x1000 else NULL)\<rparr>"

lemma short_kernel_ready: "alloc_sound short_kernel" "init_ready short_kernel ''1.04'' ''0.11'' empty_kst"
  by (simp_all add: alloc_sound_def init_ready_def short_kernel_def quiet_kernel_def empty_kst_def)

theorem init_out_of_memory_witness:
  "\<exists>cp t. pcieuni_init_module_exp short_kernel 0 ''1.04'' ''0.11'' empty_kst = Inr ((- ENOMEM, cp), t) \<and>
     cp \<noteq> NULL \<and> k_cdev t cp = None \<and> held short_kernel (k_log t) = {#}"
proof -
  have "\<exists>cp t. pcieuni_init_module_exp short_kernel 0 ''1.04'' ''0.11'' empty_kst = Inr ((- ENOMEM, cp), t)"
    by (simp add: pcieuni_init_module_exp_def kzalloc_cdev_def km_simps kzalloc_run log_add_def read_version_def
        short_kernel_def empty_kst_def upt_conv_Cons init_board_def kzalloc_dev_def kfree_cdev_def del: upt_Suc)
  moreover have "kzalloc_ret short_kernel (k_log empty_kst) \<noteq> NULL" "held short_kernel (k_log empty_kst) = {#}"
    "- ENOMEM \<noteq> 0" by (simp_all add: short_kernel_def empty_kst_def)
  ultimately show ?thesis
    using init_out_of_memory [OF short_kernel_ready, of 0] by (force split: if_splits)
qed

end
