(* ===== verification/Probe_Board.thy ===== *)
theory Probe_Board
  imports Module_Init
begin

text \<open>
  \<open>pcieuni_probe_exp\<close> binds a PCI device to the first free board of the table, reads where and what
  it is, maps its BARs, reads its board and project headers and makes its nodes.
\<close>

section \<open>Parts of probe\<close>

abbreviation (input) IRQF_SHARED :: c_int where "IRQF_SHARED \<equiv> 0x80"

abbreviation (input) PCI_VENDOR_ID :: c_int where "PCI_VENDOR_ID \<equiv> 0x00"
abbreviation (input) PCI_DEVICE_ID :: c_int where "PCI_DEVICE_ID \<equiv> 0x02"
abbreviation (input) PCI_REVISION :: c_int where "PCI_REVISION \<equiv> 0x08"
abbreviation (input) PCI_CLASS_DEVICE :: c_int where "PCI_CLASS_DEVICE \<equiv> 0x0A"
abbreviation (input) PCI_SUBSYSTEM_VENDOR_ID :: c_int where "PCI_SUBSYSTEM_VENDOR_ID \<equiv> 0x2C"
abbreviation (input) PCI_SUBSYSTEM_ID :: c_int where "PCI_SUBSYSTEM_ID \<equiv> 0x2E"
abbreviation (input) PCI_INTERRUPT_LINE :: c_int where "PCI_INTERRUPT_LINE \<equiv> 0x3C"
abbreviation (input) PCI_INTERRUPT_PIN :: c_int where "PCI_INTERRUPT_PIN \<equiv> 0x3D"
abbreviation (input) PCI_EXP_DEVCAP :: c_int where "PCI_EXP_DEVCAP \<equiv> 4"
abbreviation (input) PCI_EXP_SLTCAP :: c_int where "PCI_EXP_SLTCAP \<equiv> 20"

definition PCI_SLOT :: "u32 \<Rightarrow> u32" where
  "PCI_SLOT fn = drop_bit 3 fn AND 0x1F"

text \<open>The search for a free board; \<open>None\<close> when there is none.\<close>

fun find_slot :: "ptr \<Rightarrow> nat list \<Rightarrow> ('z kst_scheme, nat option) km" where
  "find_slot cdev_p [] = kret None"
| "find_slot cdev_p (m # ms) =
     kbind (get_cdev cdev_p) (\<lambda>c.
     kbind (get_dev (pcieuni_dev_m c ! m)) (\<lambda>d.
     if binded d = 0 then kret (Some m) else find_slot cdev_p ms))"

text \<open>
  Where the device is: bus and device number, and the slot number, which the bridge above it has in
  its slot capabilities. A device on a root bus has no bridge.
\<close>

definition probe_location :: "kenv \<Rightarrow> ptr \<Rightarrow> ptr \<Rightarrow> ('z kst_scheme, c_int) km" where
  "probe_location env dev bp =
     (let tmp_bus_func = push_bit 8 (pci_bus_number_of env dev AND 0xFF) + (PCI_SLOT (pci_devfn_of env dev) AND 0xFF);
          bridge = pci_bridge_of env dev
      in if bridge = NULL then kfail NullDeref
         else
           kbind (kget (\<lambda>s. pci_config_dword env (k_log s) bridge (pci_find_capability_ret env bridge + PCI_EXP_SLTCAP))) (\<lambda>tmp_slot_cap.
           let tmp_slot_num = drop_bit 19 tmp_slot_cap in
           kseq (upd_dev bp (\<lambda>d. d\<lparr>slot_num := tmp_slot_num, dev_num := tmp_slot_num,
                   bus_func := tmp_bus_func, pcieuni_pci_dev := dev\<rparr>))
           (kret tmp_slot_num)))"

text \<open>The payload size of the device, which the caller drops.\<close>

definition payload_size :: "u8 \<Rightarrow> u32" where
  "payload_size dev_payload =
     (if dev_payload = 0 then 128 else if dev_payload = 1 then 256 else if dev_payload = 2 then 512
      else if dev_payload = 3 then 1024 else if dev_payload = 4 then 2048
      else if dev_payload = 5 then 4096 else 0)"

definition probe_payload :: "kenv \<Rightarrow> ptr \<Rightarrow> ('z kst_scheme, u32) km" where
  "probe_payload env dev =
     kbind (kget (\<lambda>s. pci_config_byte env (k_log s) dev (pci_find_capability_ret env dev + PCI_EXP_DEVCAP))) (\<lambda>dev_payload.
     kret (payload_size (dev_payload AND 3)))"

definition probe_dma_mask :: "kenv \<Rightarrow> ptr \<Rightarrow> ptr \<Rightarrow> ('z kst_scheme, unit) km" where
  "probe_dma_mask env dev bp =
     kbind (kget (\<lambda>s. dma_set_mask_ret env (k_log s) dev 64)) (\<lambda>r.
     kseq (log_call (Pci (Dma_set_mask dev 64))) (
     if r = 0 then upd_dev bp (dev_dma_64mask_update (\<lambda>_. 1))
     else
       kbind (kget (\<lambda>s. dma_set_mask_ret env (k_log s) dev 32)) (\<lambda>r.
       kseq (log_call (Pci (Dma_set_mask dev 32))) (
       kwhen (r = 0) (upd_dev bp (dev_dma_64mask_update (\<lambda>_. 0)))))))"

definition probe_ids :: "kenv \<Rightarrow> ptr \<Rightarrow> ptr \<Rightarrow> ('z kst_scheme, unit) km" where
  "probe_ids env dev bp =
     kseq (upd_dev bp (pcieuni_all_mems_update (\<lambda>_. 0))) (
     kbind (kget k_log) (\<lambda>l.
     upd_dev bp (\<lambda>d. d\<lparr>vendor_id := pci_config_word env l dev PCI_VENDOR_ID,
       device_id := pci_config_word env l dev PCI_DEVICE_ID,
       subvendor_id := pci_config_word env l dev PCI_SUBSYSTEM_VENDOR_ID,
       subdevice_id := pci_config_word env l dev PCI_SUBSYSTEM_ID,
       class_code := pci_config_word env l dev PCI_CLASS_DEVICE,
       revision := pci_config_byte env l dev PCI_REVISION,
       irq_line := pci_config_byte env l dev PCI_INTERRUPT_LINE,
       irq_pin := pci_config_byte env l dev PCI_INTERRUPT_PIN\<rparr>)))"

text \<open>
  One BAR. The bus addresses are cut to 32 bits. \<open>upd\<close> updates the variables of the BAR, \<open>resets\<close>
  tells whether the branch for a missing BAR resets \<open>rw_off\<close>, \<open>mems\<close> is what the BAR does to
  \<open>pcieuni_all_mems\<close>.
\<close>

definition setup_bar ::
  "kenv \<Rightarrow> ptr \<Rightarrow> ptr \<Rightarrow> nat \<Rightarrow> ((pcieuni_bar \<Rightarrow> pcieuni_bar) \<Rightarrow> pcieuni_dev \<Rightarrow> pcieuni_dev) \<Rightarrow>
   bool \<Rightarrow> (c_int \<Rightarrow> c_int) \<Rightarrow> ('z kst_scheme, unit) km" where
  "setup_bar env dev bp k upd resets mems =
     (let res_start = ucast (pci_resource_start_ret env dev k) :: u32;
          res_end = ucast (pci_resource_end_ret env dev k) :: u32;
          res_flag = ucast (pci_resource_flags_ret env dev k) :: u32
      in
       kseq (upd_dev bp (upd (\<lambda>b. b\<lparr>mem_base := res_start, mem_base_end := res_end, mem_base_flag := res_flag\<rparr>))) (
       if res_start \<noteq> 0 then
         kbind (kget (\<lambda>s. pci_iomap_ret env (k_log s) dev k (ucast (res_end - res_start)))) (\<lambda>a.
         kseq (log_call (Pci (Pci_iomap dev k (ucast (res_end - res_start)) a))) (
         kseq (upd_dev bp (upd (\<lambda>b. b\<lparr>rw_off := ucast (res_end - res_start), memmory_base := a\<rparr>)))
         (upd_dev bp (pcieuni_all_mems_update mems))))
       else upd_dev bp (upd (\<lambda>b. b\<lparr>rw_off := (if resets then 0 else rw_off b), memmory_base := NULL\<rparr>))))"

definition probe_bars :: "kenv \<Rightarrow> ptr \<Rightarrow> ptr \<Rightarrow> ('z kst_scheme, unit) km" where
  "probe_bars env dev bp =
     kseq (setup_bar env dev bp 0 bar0_update True (\<lambda>_. 1)) (
     kseq (setup_bar env dev bp 1 bar1_update True (\<lambda>n. n + 2)) (
     kseq (setup_bar env dev bp 2 bar2_update False (\<lambda>n. n + 4)) (
     kseq (setup_bar env dev bp 3 bar3_update False (\<lambda>n. n + 8)) (
     kseq (setup_bar env dev bp 4 bar4_update False (\<lambda>n. n + 16))
     (setup_bar env dev bp 5 bar5_update False (\<lambda>n. n + 32))))))"

definition probe_info :: "kenv \<Rightarrow> ptr \<Rightarrow> ('z kst_scheme, unit) km" where
  "probe_info env bp =
     kbind (pcieuni_get_brdinfo env bp) (\<lambda>tmp_info.
     kwhen (tmp_info \<noteq> 0) (kseq (pcieuni_get_prjinfo env bp) (kret ())))"

definition probe_irq :: "kenv \<Rightarrow> ptr \<Rightarrow> ptr \<Rightarrow> ('z kst_scheme, unit) km" where
  "probe_irq env dev bp =
     kseq (upd_dev bp (irq_flag_update (\<lambda>_. IRQF_SHARED))) (
     kbind (kget (\<lambda>s. pci_enable_msi_ret env (k_log s) dev)) (\<lambda>r.
     kseq (log_call (Pci (Pci_enable_msi dev))) (
     kseq (if r = 0 then upd_dev bp (\<lambda>d. d\<lparr>msi := 1, irq_flag := irq_flag d AND NOT IRQF_SHARED\<rparr>)
           else upd_dev bp (msi_update (\<lambda>_. 0))) (
     kbind (kget (\<lambda>s. pci_irq_of env (k_log s) dev)) (\<lambda>irq.
     upd_dev bp (\<lambda>d. d\<lparr>pci_dev_irq := irq, irq_mode := 0\<rparr>))))))"

text \<open>The nodes of the board. Both arrays for the name have 64 characters.\<close>

definition probe_nodes :: "kenv \<Rightarrow> ptr \<Rightarrow> ptr \<Rightarrow> nat \<Rightarrow> string \<Rightarrow> c_int \<Rightarrow> ('z kst_scheme, unit) km" where
  "probe_nodes env cdev_p bp m dev_name tmp_slot_num =
     kbind (get_cdev cdev_p) (\<lambda>c.
     let devno = MKDEV (PCIEUNI_MAJOR c) (PCIEUNI_MINOR c + of_nat m) in
     kbind (get_dev bp) (\<lambda>d.
     kseq (kwhen (dev_sts d \<noteq> 0) (
       kseq (upd_dev bp (dev_sts_update (\<lambda>_. 0)))
       (log_call (Node (Device_destroy (pcieuni_class c) devno))))) (
     kseq (upd_dev bp (dev_sts_update (\<lambda>_. 1))) (
     kbind (sprintf_to 64 (board_name dev_name tmp_slot_num)) (\<lambda>text.
     kseq (upd_dev bp (name_update (\<lambda>_. text))) (
     kbind (sprintf_to 64 (board_name dev_name tmp_slot_num)) (\<lambda>prc_entr.
     kseq (log_call (Node (Device_create (pcieuni_class c) devno text))) (
     kseq (register_gpcieuni_proc env tmp_slot_num dev_name bp cdev_p)
     (upd_cdev cdev_p (\<lambda>c. c\<lparr>pcieuniModuleNum := pcieuniModuleNum c + 1\<rparr>))))))))))"

section \<open>Probe\<close>

text \<open>The result, and what \<open>brd_num\<close> points to afterwards (\<open>brd_num_old\<close> before).\<close>

definition pcieuni_probe_exp ::
  "kenv \<Rightarrow> ptr \<Rightarrow> ptr \<Rightarrow> string \<Rightarrow> c_int \<Rightarrow> ('z kst_scheme, c_int \<times> c_int) km" where
  "pcieuni_probe_exp env dev cdev_p dev_name brd_num_old =
     kbind (find_slot cdev_p [0..<PCIEUNI_NR_DEVS]) (\<lambda>slot.
     case slot of
       None \<Rightarrow> kret (- 1, brd_num_old)
     | Some m \<Rightarrow>
         kbind (get_cdev cdev_p) (\<lambda>c.
         let bp = pcieuni_dev_m c ! m in
         kseq (upd_dev bp (binded_update (\<lambda>_. 1))) (
         kbind (kget (\<lambda>s. pci_enable_device_ret env (k_log s) dev)) (\<lambda>err.
         kseq (log_call (Pci (Pci_enable_device dev))) (
         if err \<noteq> 0 then kret (err, of_nat m)
         else
           kbind (kget (\<lambda>s. pci_request_regions_ret env (k_log s) dev)) (\<lambda>err.
           kseq (log_call (Pci (Pci_request_regions dev))) (
           if err \<noteq> 0 then
             kseq (log_call (Pci (Pci_disable_device dev))) (
             kseq (kmod (\<lambda>s. s\<lparr>k_drvdata := (k_drvdata s)(dev := NULL)\<rparr>))
             (kret (err, of_nat m)))
           else
             kseq (log_call (Pci (Pci_set_master dev))) (
             kbind (probe_location env dev bp) (\<lambda>tmp_slot_num.
             kseq (kmod (\<lambda>s. s\<lparr>k_drvdata := (k_drvdata s)(dev := bp)\<rparr>)) (
             kseq (probe_payload env dev) (
             kseq (probe_dma_mask env dev bp) (
             kseq (probe_ids env dev bp) (
             kseq (probe_bars env dev bp) (
             kseq (probe_info env bp) (
             kseq (probe_irq env dev bp) (
             kseq (probe_nodes env cdev_p bp m dev_name tmp_slot_num)
             (kret (0, of_nat m))))))))))))))))))"

section \<open>What probe does, part by part\<close>

lemma find_slot_run:
  assumes "cp \<noteq> NULL" "k_cdev s cp = Some c" "pcieuni_dev_m c ! m \<noteq> NULL" "k_dev s (pcieuni_dev_m c ! m) = Some d"
    "binded d = 0" "\<forall>j \<in> set ms. pcieuni_dev_m c ! j \<noteq> NULL \<and> (\<exists>e. k_dev s (pcieuni_dev_m c ! j) = Some e \<and> binded e \<noteq> 0)"
  shows "find_slot cp (ms @ m # ms') s = Inr (Some m, s)"
  using assms by (induction ms) (auto simp: km_simps)

lemma find_slot_full:
  assumes "cp \<noteq> NULL" "k_cdev s cp = Some c"
    "\<forall>j \<in> set ms. pcieuni_dev_m c ! j \<noteq> NULL \<and> (\<exists>e. k_dev s (pcieuni_dev_m c ! j) = Some e \<and> binded e \<noteq> 0)"
  shows "find_slot cp ms s = Inr (None, s)"
  using assms by (induction ms) (auto simp: km_simps)


text \<open>
  A device as the kernel shows it to the driver while it is probed: its configuration registers, the
  slot capabilities register in the PCI Express capability of the bridge above it, the addresses its BARs are mapped to, its registers,
  and whether it has message signalled interrupts.
\<close>

record pci_card =
  card_word :: "c_int \<Rightarrow> u16"
  card_byte :: "c_int \<Rightarrow> u8"
  card_slot_cap :: u32
  card_base :: "nat \<Rightarrow> ptr"
  card_regs :: "ptr \<Rightarrow> u32"
  card_msi :: bool
  card_irq :: u32

definition card_there :: "kenv \<Rightarrow> ptr \<Rightarrow> pci_card \<Rightarrow> bool" where
  "card_there env dev cd \<longleftrightarrow> (\<forall>l. pci_enable_device_ret env l dev = 0) \<and> (\<forall>l. pci_request_regions_ret env l dev = 0) \<and>
     pci_bridge_of env dev \<noteq> NULL \<and>
     (\<forall>l. pci_config_dword env l (pci_bridge_of env dev)
        (pci_find_capability_ret env (pci_bridge_of env dev) + 20) = card_slot_cap cd) \<and>
     (\<forall>l r. pci_config_word env l dev r = card_word cd r) \<and> (\<forall>l r. pci_config_byte env l dev r = card_byte cd r) \<and>
     (\<forall>l k n. pci_iomap_ret env l dev k n = card_base cd k) \<and> stable_regs env (card_regs cd) \<and>
     (\<forall>l. pci_enable_msi_ret env l dev = 0 \<longleftrightarrow> card_msi cd) \<and>
     (\<forall>l. Pci (Pci_enable_msi dev) \<in> set l \<longrightarrow> pci_irq_of env l dev = card_irq cd)"

lemma card_thereD:
  assumes "card_there env dev cd"
  shows "pci_enable_device_ret env l dev = 0" "pci_request_regions_ret env l dev = 0" "pci_bridge_of env dev \<noteq> NULL"
    "pci_config_dword env l (pci_bridge_of env dev) (pci_find_capability_ret env (pci_bridge_of env dev) + 20) = card_slot_cap cd"
    "pci_config_word env l dev r = card_word cd r" "pci_config_byte env l dev r = card_byte cd r"
    "pci_iomap_ret env l dev k n = card_base cd k" "stable_regs env (card_regs cd)"
    "pci_enable_msi_ret env l dev = 0 \<longleftrightarrow> card_msi cd"
    "Pci (Pci_enable_msi dev) \<in> set l \<Longrightarrow> pci_irq_of env l dev = card_irq cd"
  using assms by (simp_all add: card_there_def)

definition card_slot :: "pci_card \<Rightarrow> c_int" where
  "card_slot cd = drop_bit 19 (card_slot_cap cd)"

definition card_bus_func :: "kenv \<Rightarrow> ptr \<Rightarrow> c_int" where
  "card_bus_func env dev = push_bit 8 (pci_bus_number_of env dev AND 0xFF) + (PCI_SLOT (pci_devfn_of env dev) AND 0xFF)"

lemma probe_location_run:
  assumes "card_there env dev cd" "bp \<noteq> NULL" "k_dev s bp = Some d"
  shows "probe_location env dev bp s = Inr (card_slot cd, put_dev bp
    (d\<lparr>slot_num := card_slot cd, dev_num := card_slot cd, bus_func := card_bus_func env dev, pcieuni_pci_dev := dev\<rparr>) [] s)"
  using assms(2,3) card_thereD(3,4) [OF assms(1)]
  by (simp add: probe_location_def km_simps Let_def put_dev_def card_slot_def card_bus_func_def)

lemma probe_dma_mask_run:
  assumes "bp \<noteq> NULL" "k_dev s bp = Some d"
  shows "\<exists>x new. probe_dma_mask env dev bp s = Inr ((), put_dev bp (d\<lparr>dev_dma_64mask := x\<rparr>) new s) \<and>
    set new \<subseteq> {Pci (Dma_set_mask dev 64), Pci (Dma_set_mask dev 32)}"
proof -
  let ?m64 = "Pci (Dma_set_mask dev 64)" and ?m32 = "Pci (Dma_set_mask dev 32)"
  consider "dma_set_mask_ret env (k_log s) dev 64 = 0"
    | "dma_set_mask_ret env (k_log s) dev 64 \<noteq> 0" "dma_set_mask_ret env (?m64 # k_log s) dev 32 = 0"
    | "dma_set_mask_ret env (k_log s) dev 64 \<noteq> 0" "dma_set_mask_ret env (?m64 # k_log s) dev 32 \<noteq> 0" by blast
  then show ?thesis
  proof cases
    case 1
    then show ?thesis using assms
      by (intro exI [of _ 1] exI [of _ "[?m64]"]) (simp add: probe_dma_mask_def km_simps put_dev_def log_add_def)
  next
    case 2
    then show ?thesis using assms
      by (intro exI [of _ 0] exI [of _ "[?m32, ?m64]"]) (simp add: probe_dma_mask_def km_simps put_dev_def log_add_def)
  next
    case 3
    then show ?thesis using assms
      by (intro exI [of _ "dev_dma_64mask d"] exI [of _ "[?m32, ?m64]"])
         (simp add: probe_dma_mask_def km_simps put_dev_def log_add_def fun_upd_idem)
  qed
qed

definition card_ids :: "pci_card \<Rightarrow> pcieuni_dev \<Rightarrow> pcieuni_dev" where
  "card_ids cd d = d\<lparr>vendor_id := card_word cd PCI_VENDOR_ID, device_id := card_word cd PCI_DEVICE_ID,
     subvendor_id := card_word cd PCI_SUBSYSTEM_VENDOR_ID, subdevice_id := card_word cd PCI_SUBSYSTEM_ID,
     class_code := card_word cd PCI_CLASS_DEVICE, revision := card_byte cd PCI_REVISION,
     irq_line := card_byte cd PCI_INTERRUPT_LINE, irq_pin := card_byte cd PCI_INTERRUPT_PIN\<rparr>"

lemma probe_ids_run:
  assumes "card_there env dev cd" "bp \<noteq> NULL" "k_dev s bp = Some d"
  shows "probe_ids env dev bp s = Inr ((), put_dev bp (card_ids cd (d\<lparr>pcieuni_all_mems := 0\<rparr>)) [] s)"
  using assms(2,3) card_thereD(5,6) [OF assms(1)]
  by (simp add: probe_ids_def km_simps put_dev_def card_ids_def)

lemma probe_irq_run:
  assumes "card_there env dev cd" "bp \<noteq> NULL" "k_dev s bp = Some d"
  shows "probe_irq env dev bp s = Inr ((), put_dev bp (d\<lparr>irq_flag := (if card_msi cd then 0 else IRQF_SHARED),
    msi := (if card_msi cd then 1 else 0), pci_dev_irq := card_irq cd, irq_mode := 0\<rparr>) [Pci (Pci_enable_msi dev)] s)"
  using assms(2,3) card_thereD(9,10) [OF assms(1)]
  by (cases d) (auto simp: probe_irq_def km_simps put_dev_def log_add_def)

text \<open>One BAR and all BARs.\<close>

definition bar_start :: "kenv \<Rightarrow> ptr \<Rightarrow> nat \<Rightarrow> u32" where
  "bar_start env dev k = ucast (pci_resource_start_ret env dev k)"

definition bar_len :: "kenv \<Rightarrow> ptr \<Rightarrow> nat \<Rightarrow> u64" where
  "bar_len env dev k = ucast (ucast (pci_resource_end_ret env dev k) - bar_start env dev k :: u32)"

definition bar_new :: "kenv \<Rightarrow> ptr \<Rightarrow> pci_card \<Rightarrow> nat \<Rightarrow> pcieuni_bar \<Rightarrow> pcieuni_bar" where
  "bar_new env dev cd k b = \<lparr>mem_base = bar_start env dev k, mem_base_end = ucast (pci_resource_end_ret env dev k),
     mem_base_flag = ucast (pci_resource_flags_ret env dev k),
     rw_off = (if bar_start env dev k \<noteq> 0 then bar_len env dev k else if k < 2 then 0 else rw_off b),
     memmory_base = (if bar_start env dev k \<noteq> 0 then card_base cd k else NULL)\<rparr>"

definition bar_log :: "kenv \<Rightarrow> ptr \<Rightarrow> pci_card \<Rightarrow> nat \<Rightarrow> klog" where
  "bar_log env dev cd k = (if bar_start env dev k \<noteq> 0 then [Pci (Pci_iomap dev k (bar_len env dev k) (card_base cd k))] else [])"

lemma setup_bar_run:
  assumes "card_there env dev cd" "bp \<noteq> NULL" "k_dev s bp = Some d" "resets \<longleftrightarrow> k < 2"
    "\<And>f g d. upd g (upd f d) = upd (\<lambda>b. g (f b)) d"
  shows "setup_bar env dev bp k upd resets mems s = Inr ((), put_dev bp
    ((if bar_start env dev k \<noteq> 0 then pcieuni_all_mems_update mems else id) (upd (bar_new env dev cd k) d))
    (bar_log env dev cd k) s)"
proof -
  have "bar_new env dev cd k = (\<lambda>b. b\<lparr>mem_base := bar_start env dev k, mem_base_end := ucast (pci_resource_end_ret env dev k),
     mem_base_flag := ucast (pci_resource_flags_ret env dev k),
     rw_off := (if bar_start env dev k \<noteq> 0 then bar_len env dev k else if resets then 0 else rw_off b),
     memmory_base := (if bar_start env dev k \<noteq> 0 then card_base cd k else NULL)\<rparr>)"
    using assms(4) by (auto simp: bar_new_def)
  then show ?thesis
    using assms(2,3,5) card_thereD(7) [OF assms(1)]
    by (simp add: setup_bar_def km_simps Let_def bar_start_def bar_len_def bar_log_def put_dev_def log_add_def
        cong: if_cong)
qed


definition bars_mask :: "kenv \<Rightarrow> ptr \<Rightarrow> c_int" where
  "bars_mask env dev = (if bar_start env dev 0 \<noteq> 0 then 1 else 0) + (if bar_start env dev 1 \<noteq> 0 then 2 else 0) +
     (if bar_start env dev 2 \<noteq> 0 then 4 else 0) + (if bar_start env dev 3 \<noteq> 0 then 8 else 0) +
     (if bar_start env dev 4 \<noteq> 0 then 16 else 0) + (if bar_start env dev 5 \<noteq> 0 then 32 else 0)"

definition bars_new :: "kenv \<Rightarrow> ptr \<Rightarrow> pci_card \<Rightarrow> pcieuni_dev \<Rightarrow> pcieuni_dev" where
  "bars_new env dev cd d = d\<lparr>bar0 := bar_new env dev cd 0 (bar0 d), bar1 := bar_new env dev cd 1 (bar1 d),
     bar2 := bar_new env dev cd 2 (bar2 d), bar3 := bar_new env dev cd 3 (bar3 d), bar4 := bar_new env dev cd 4 (bar4 d),
     bar5 := bar_new env dev cd 5 (bar5 d), pcieuni_all_mems := bars_mask env dev\<rparr>"

definition bars_log :: "kenv \<Rightarrow> ptr \<Rightarrow> pci_card \<Rightarrow> klog" where
  "bars_log env dev cd = bar_log env dev cd 5 @ bar_log env dev cd 4 @ bar_log env dev cd 3 @
     bar_log env dev cd 2 @ bar_log env dev cd 1 @ bar_log env dev cd 0"

lemma all_mems_if: "(if b then pcieuni_all_mems_update f else id) d = d\<lparr>pcieuni_all_mems := (if b then f (pcieuni_all_mems d) else pcieuni_all_mems d)\<rparr>"
  by (cases d) simp

lemma probe_bars_run:
  assumes "card_there env dev cd" "bp \<noteq> NULL" "k_dev s bp = Some d" "pcieuni_all_mems d = 0"
  shows "probe_bars env dev bp s = Inr ((), put_dev bp (bars_new env dev cd d) (bars_log env dev cd) s)"
proof -
  note bar = setup_bar_run [OF assms(1,2)]
  have "probe_bars env dev bp s = Inr ((), put_dev bp
      ((if bar_start env dev 5 \<noteq> 0 then pcieuni_all_mems_update (\<lambda>n. n + 32) else id) (bar5_update (bar_new env dev cd 5)
      ((if bar_start env dev 4 \<noteq> 0 then pcieuni_all_mems_update (\<lambda>n. n + 16) else id) (bar4_update (bar_new env dev cd 4)
      ((if bar_start env dev 3 \<noteq> 0 then pcieuni_all_mems_update (\<lambda>n. n + 8) else id) (bar3_update (bar_new env dev cd 3)
      ((if bar_start env dev 2 \<noteq> 0 then pcieuni_all_mems_update (\<lambda>n. n + 4) else id) (bar2_update (bar_new env dev cd 2)
      ((if bar_start env dev 1 \<noteq> 0 then pcieuni_all_mems_update (\<lambda>n. n + 2) else id) (bar1_update (bar_new env dev cd 1)
      ((if bar_start env dev 0 \<noteq> 0 then pcieuni_all_mems_update (\<lambda>_. 1) else id) (bar0_update (bar_new env dev cd 0) d))))))))))))
      (bars_log env dev cd) s)"
    using assms(3)
    by (simp add: probe_bars_def kseq_Inr bar [OF assms(3)] bar bars_log_def del: id_apply)
  then show ?thesis
    using assms(4) by (cases d) (simp add: all_mems_if bars_new_def bars_mask_def algebra_simps)
qed


text \<open>
  What the scan of board and project headers finds: \<open>offs\<close> are the offsets of the project headers in
  BAR 0. When the board header has no link to a project, the scan ends if none of the other BARs
  starts with a project header.
\<close>

definition prj_scan :: "(ptr \<Rightarrow> u32) \<Rightarrow> (nat \<Rightarrow> ptr) \<Rightarrow> c_int list \<Rightarrow> bool" where
  "prj_scan regs base offs \<longleftrightarrow>
     (if base 0 \<noteq> NULL \<and> board_magic (regs (base 0)) then
        (if regs (base 0 + 0x18) \<noteq> 0 then prj_linked regs (base 0) (regs (base 0 + 0x18)) offs
         else offs = [] \<and> (\<forall>k \<in> {1, 2, 3, 4, 5}. base k = NULL \<or> regs (base k) \<noteq> ASCII_PROJ_MAGIC_NUM))
      else offs = [])"

definition dev_base :: "pcieuni_dev \<Rightarrow> nat \<Rightarrow> ptr" where
  "dev_base d k = (case dev_bar d k of None \<Rightarrow> NULL | Some b \<Rightarrow> memmory_base b)"

lemma dev_base_simps [simp]:
  "dev_base d 0 = memmory_base (bar0 d)" "dev_base d (Suc 0) = memmory_base (bar1 d)" "dev_base d 1 = memmory_base (bar1 d)"
  "dev_base d 2 = memmory_base (bar2 d)" "dev_base d 3 = memmory_base (bar3 d)"
  "dev_base d 4 = memmory_base (bar4 d)" "dev_base d 5 = memmory_base (bar5 d)"
  by (simp_all add: dev_base_def dev_bar_def)

definition info_dev :: "bool \<Rightarrow> pcieuni_brd_info \<Rightarrow> pcieuni_prj_info list \<Rightarrow> pcieuni_dev \<Rightarrow> pcieuni_dev" where
  "info_dev found b ps d = d\<lparr>startup_brd := (if found then 1 else 0), brd_info_list := b,
     startup_prj_num := (if found then of_nat (length ps) else startup_prj_num d),
     prj_info_list := rev ps @ prj_info_list d\<rparr>"

definition prj_headers :: "(ptr \<Rightarrow> u32) \<Rightarrow> ptr \<Rightarrow> c_int list \<Rightarrow> pcieuni_prj_info list" where
  "prj_headers regs a offs = map (\<lambda>ofs. prj_header regs 0 (a + scast ofs)) offs"

lemma probe_prj_run:
  assumes "stable_regs env regs" "memory_plenty env" "bp \<noteq> NULL" "k_dev s bp = Some d" "prj_scan regs (dev_base d) offs"
    "brd_found regs d" "a = memmory_base (bar0 d)"
    "b' = brd_header regs a (brd_info_list d)" "d1 = d\<lparr>startup_brd := 1, brd_info_list := b'\<rparr>"
  shows "\<exists>b ps r new. pcieuni_get_prjinfo env bp (put_dev bp d1 l s) = Inr (r, put_dev bp (info_dev True b ps d) new s) \<and>
    map (prj_addr_update (\<lambda>_. 0)) ps = prj_headers regs a offs \<and> b\<lparr>BRD_PROJ_NEXT := 0\<rparr> = b'\<lparr>BRD_PROJ_NEXT := 0\<rparr>"
proof (cases "regs (a + 0x18) = 0")
  case True
  with assms(5-9) have offs: "offs = []" and
    none: "\<forall>k \<in> {1, 2, 3, 4, 5}. dev_base d k = NULL \<or> regs (dev_base d k) \<noteq> ASCII_PROJ_MAGIC_NUM"
    by (auto simp: prj_scan_def brd_found_def)
  from prjinfo_bars_run [OF assms(1,3), of "put_dev bp d1 l s" d1] True none assms(7-9) obtain new where
    "pcieuni_get_prjinfo env bp (put_dev bp d1 l s) = Inr (0, put_dev bp (d1\<lparr>startup_prj_num := 0\<rparr>) new s)"
    by (auto simp: brd_header_def)
  then show ?thesis using offs assms(9)
    by (intro exI [of _ b'] exI [of _ "[]"] exI [of _ 0] exI [of _ new]) (simp add: info_dev_def prj_headers_def)
next
  case False
  with assms(5-7) have "prj_linked regs a (regs (a + 0x18)) offs" by (simp add: prj_scan_def brd_found_def)
  with prjinfo_chain_run [OF assms(1-3), of "put_dev bp d1 l s" d1 offs] False assms(7-9) obtain ps new where
    run: "pcieuni_get_prjinfo env bp (put_dev bp d1 l s) =
      Inr (of_nat (length offs), put_dev bp (fold add_prj ps (d1\<lparr>startup_prj_num := 0\<rparr>)) new s)"
    and ps: "map (prj_addr_update (\<lambda>_. 0)) ps = prj_headers regs a offs" by (auto simp: prj_headers_def brd_header_def)
  from fold_add_prj_form [of ps "d1\<lparr>startup_prj_num := 0\<rparr>"] assms(9) obtain b where
    b: "fold add_prj ps (d1\<lparr>startup_prj_num := 0\<rparr>) = d1\<lparr>startup_prj_num := of_nat (length ps), brd_info_list := b,
      prj_info_list := rev ps @ prj_info_list d\<rparr>" "b\<lparr>BRD_PROJ_NEXT := 0\<rparr> = b'\<lparr>BRD_PROJ_NEXT := 0\<rparr>" by auto
  have "info_dev True b ps d = d1\<lparr>startup_prj_num := of_nat (length ps), brd_info_list := b, prj_info_list := rev ps @ prj_info_list d\<rparr>"
    unfolding assms(9) by (cases d) (simp add: info_dev_def)
  with run ps b show ?thesis by (intro exI [of _ b] exI [of _ ps] exI [of _ "of_nat (length offs)"] exI [of _ new]) simp
qed

lemma probe_info_run:
  assumes "stable_regs env regs" "memory_plenty env" "bp \<noteq> NULL" "k_dev s bp = Some d"
    "prj_scan regs (dev_base d) offs"
  shows "\<exists>b ps new. probe_info env bp s = Inr ((), put_dev bp (info_dev (brd_found regs d) b ps d) new s) \<and>
    map (prj_addr_update (\<lambda>_. 0)) ps = prj_headers regs (memmory_base (bar0 d)) offs \<and>
    b\<lparr>BRD_PROJ_NEXT := 0\<rparr> = (if brd_found regs d then brd_header regs (memmory_base (bar0 d)) (brd_info_list d)
      else brd_info_list d)\<lparr>BRD_PROJ_NEXT := 0\<rparr>"
proof (cases "brd_found regs d")
  case False
  with brdinfo_run [OF assms(1,3,4)] obtain new where
    "pcieuni_get_brdinfo env bp s = Inr (0, put_dev bp (d\<lparr>startup_brd := 0\<rparr>) new s)" by auto
  moreover have "offs = []" using False assms(5) by (auto simp: prj_scan_def brd_found_def)
  ultimately show ?thesis using False
    by (intro exI [of _ "brd_info_list d"] exI [of _ "[]"] exI [of _ new])
       (simp add: probe_info_def km_simps info_dev_def prj_headers_def)
next
  case True
  with brdinfo_run [OF assms(1,3,4)] obtain l where
    brd: "pcieuni_get_brdinfo env bp s = Inr (1, put_dev bp
      (d\<lparr>startup_brd := 1, brd_info_list := brd_header regs (memmory_base (bar0 d)) (brd_info_list d)\<rparr>) l s)" by auto
  from probe_prj_run [OF assms True refl refl refl, of l] obtain b ps r new where
    "pcieuni_get_prjinfo env bp (put_dev bp
      (d\<lparr>startup_brd := 1, brd_info_list := brd_header regs (memmory_base (bar0 d)) (brd_info_list d)\<rparr>) l s) =
        Inr (r, put_dev bp (info_dev True b ps d) new s)"
    "map (prj_addr_update (\<lambda>_. 0)) ps = prj_headers regs (memmory_base (bar0 d)) offs"
    "b\<lparr>BRD_PROJ_NEXT := 0\<rparr> = (brd_header regs (memmory_base (bar0 d)) (brd_info_list d))\<lparr>BRD_PROJ_NEXT := 0\<rparr>" by blast
  then show ?thesis using True brd
    by (intro exI [of _ b] exI [of _ ps] exI [of _ new]) (simp add: probe_info_def km_simps)
qed

section \<open>What a bound device holds\<close>

text \<open>
  The resources of the bus, the interrupts and the nodes a log of calls leaves with the driver. A
  call that failed leaves nothing; the driver does not look at the result of \<open>device_create\<close>, and
  the node counts as made.
\<close>

datatype bus_resource = REnabled ptr | RRegions ptr | RMapping ptr ptr | RMsi ptr | RIrq u32 ptr
  | RNode ptr c_int | RProc string

fun pci_got :: "kenv \<Rightarrow> klog \<Rightarrow> pci_call \<Rightarrow> bus_resource multiset \<Rightarrow> bus_resource multiset" where
  "pci_got env l (Pci_enable_device d) R = (if pci_enable_device_ret env l d = 0 then add_mset (REnabled d) R else R)"
| "pci_got env l (Pci_disable_device d) R = R - {#REnabled d#}"
| "pci_got env l (Pci_request_regions d) R = (if pci_request_regions_ret env l d = 0 then add_mset (RRegions d) R else R)"
| "pci_got env l (Pci_release_regions d) R = R - {#RRegions d#}"
| "pci_got env l (Pci_iomap d k n a) R = (if a = NULL then R else add_mset (RMapping d a) R)"
| "pci_got env l (Pci_iounmap d a) R = R - {#RMapping d a#}"
| "pci_got env l (Pci_enable_msi d) R = (if pci_enable_msi_ret env l d = 0 then add_mset (RMsi d) R else R)"
| "pci_got env l (Pci_disable_msi d) R = R - {#RMsi d#}"
| "pci_got env l (Request_irq i fl p) R = (if request_irq_ret env l i = 0 then add_mset (RIrq i p) R else R)"
| "pci_got env l (Free_irq i p) R = R - {#RIrq i p#}"
| "pci_got env l (Pci_set_master d) R = R"
| "pci_got env l (Dma_set_mask d n) R = R"

fun node_got :: "kenv \<Rightarrow> klog \<Rightarrow> node_call \<Rightarrow> bus_resource multiset \<Rightarrow> bus_resource multiset" where
  "node_got env l (Device_create cl n nm) R = add_mset (RNode cl n) R"
| "node_got env l (Device_destroy cl n) R = R - {#RNode cl n#}"
| "node_got env l (Proc_create nm p) R = (if proc_create_ret env l = NULL then R else add_mset (RProc nm) R)"
| "node_got env l (Proc_remove nm) R = R - {#RProc nm#}"
| "node_got env l _ R = R"

fun bus_held :: "kenv \<Rightarrow> klog \<Rightarrow> bus_resource multiset" where
  "bus_held env [] = {#}"
| "bus_held env (c # l) = (case c of Pci p \<Rightarrow> pci_got env l p (bus_held env l)
     | Node n \<Rightarrow> node_got env l n (bus_held env l) | _ \<Rightarrow> bus_held env l)"

definition bar_res :: "ptr \<Rightarrow> pcieuni_bar \<Rightarrow> bus_resource multiset" where
  "bar_res dev b = (if memmory_base b = NULL then {#} else {#RMapping dev (memmory_base b)#})"

definition bars_res :: "ptr \<Rightarrow> pcieuni_dev \<Rightarrow> bus_resource multiset" where
  "bars_res dev d = bar_res dev (bar0 d) + bar_res dev (bar1 d) + bar_res dev (bar2 d) +
     bar_res dev (bar3 d) + bar_res dev (bar4 d) + bar_res dev (bar5 d)"

lemma held_bar_log [simp]: "held env (bar_log env dev cd k @ l) = held env l"
  by (simp add: bar_log_def)

lemma bus_held_bar_log: "bus_held env (bar_log env dev cd k @ l) = bar_res dev (bar_new env dev cd k b) + bus_held env l"
  by (simp add: bar_log_def bar_res_def bar_new_def)

lemma bus_held_bars_log:
  "bus_held env (bars_log env dev cd @ l) = bars_res dev (bars_new env dev cd d) + bus_held env l"
  by (simp add: bars_log_def bars_res_def bars_new_def
      bus_held_bar_log [of env dev cd 0 _ "bar0 d"] bus_held_bar_log [of env dev cd "Suc 0" _ "bar1 d"]
      bus_held_bar_log [of env dev cd 2 _ "bar2 d"] bus_held_bar_log [of env dev cd 3 _ "bar3 d"]
      bus_held_bar_log [of env dev cd 4 _ "bar4 d"] bus_held_bar_log [of env dev cd 5 _ "bar5 d"])

text \<open>
  The scan for projects allocates a structure for every project it lists, and changes nothing else
  of what is held.
\<close>

definition prj_kept :: "kenv \<Rightarrow> ptr \<Rightarrow> resource multiset \<Rightarrow> bus_resource multiset \<Rightarrow> kst \<Rightarrow> bool" where
  "prj_kept env bp H B s \<longleftrightarrow> (\<exists>d. k_dev s bp = Some d \<and>
     held env (k_log s) = H + mset (map (RMem \<circ> prj_addr) (prj_info_list d)) \<and> bus_held env (k_log s) = B)"

lemma keeps_upd: "(\<And>d. prj_info_list (f d) = prj_info_list d) \<Longrightarrow> keeps (prj_kept env bp H B) (upd_dev bp f)"
  by (auto simp: keeps_def prj_kept_def upd_dev_eq_Inr)

lemma keeps_get_dev: "keeps P (get_dev p)"
  by (auto simp: keeps_def get_dev_eq_Inr)

lemma keeps_ioread32: "keeps (prj_kept env bp H B) (klift (ioread32 env' a))"
  by (auto simp: keeps_def prj_kept_def klift_app ioread32_def Let_def)

lemma keeps_fill_prj: "keeps (prj_kept env bp H B) (pcieuni_fill_prj_info env bp a)"
  by (rule keepsI)
     (auto simp: prj_kept_def pcieuni_fill_prj_info_def km_inverts klift_app ioread32_def kzalloc_def Let_def
       upd_brd_def upd_dev_eq_Inr split: if_splits)

lemma keeps_kloop: "(\<And>s u t. P s \<Longrightarrow> l s = Some (Inr (u, t)) \<Longrightarrow> P t) \<Longrightarrow> keeps P (kloop l)"
  by (auto simp: keeps_def kloop_def split: option.splits)

lemma prj_chain_keeps:
  assumes "prj_chain env bp base n s = Some (Inr (u, t))" "prj_kept env bp H B s"
  shows "prj_kept env bp H B t"
proof -
  have "\<forall>u t. r = Inr (u, t) \<longrightarrow> prj_kept env bp H B s \<longrightarrow> prj_kept env bp H B t"
    if "prj_chain env bp base n s = Some r" for r
  proof (rule mp [OF prj_chain.raw_induct [where P = "\<lambda>e b a n (s :: kst) r. e = env \<and> b = bp \<longrightarrow>
      (\<forall>u t. r = Inr (u, t) \<longrightarrow> prj_kept env bp H B s \<longrightarrow> prj_kept env bp H B t)", OF _ that]], intro impI allI)
    fix f :: "kenv \<Rightarrow> ptr \<Rightarrow> ptr \<Rightarrow> c_int \<Rightarrow> kst \<Rightarrow> (kfault + unit \<times> kst) option" and e b a n s r u t
    assume IH: "\<And>e b a n s r. f e b a n s = Some r \<Longrightarrow> e = env \<and> b = bp \<longrightarrow>
        (\<forall>u t. r = Inr (u, t) \<longrightarrow> prj_kept env bp H B s \<longrightarrow> prj_kept env bp H B t)"
      and eq: "(if n = 0 then Some (Inr ((), s)) else case pcieuni_fill_prj_info e b (a + scast n) s of
        Inl e \<Rightarrow> Some (Inl e) | Inr (n, s') \<Rightarrow> f e b a n s') = Some r"
      and prems: "e = env \<and> b = bp" "r = Inr (u, t)" "prj_kept env bp H B s"
    show "prj_kept env bp H B t"
      using eq prems IH keepsD [OF keeps_fill_prj prems(3), of "a + scast n"]
      by (auto split: if_splits sum.splits)
  qed simp
  with assms show ?thesis by blast
qed

lemma prj_in_bar_keeps:
  assumes "prj_in_bar env bp base n s = Some (Inr (u, t))" "prj_kept env bp H B s"
  shows "prj_kept env bp H B t"
proof -
  have "\<forall>u t. r = Inr (u, t) \<longrightarrow> prj_kept env bp H B s \<longrightarrow> prj_kept env bp H B t"
    if "prj_in_bar env bp base n s = Some r" for r
  proof (rule mp [OF prj_in_bar.raw_induct [where P = "\<lambda>e b a n (s :: kst) r. e = env \<and> b = bp \<longrightarrow>
      (\<forall>u t. r = Inr (u, t) \<longrightarrow> prj_kept env bp H B s \<longrightarrow> prj_kept env bp H B t)", OF _ that]], intro impI allI)
    fix f :: "kenv \<Rightarrow> ptr \<Rightarrow> ptr \<Rightarrow> c_int \<Rightarrow> kst \<Rightarrow> (kfault + unit \<times> kst) option" and e b a n s r u t
    assume IH: "\<And>e b a n s r. f e b a n s = Some r \<Longrightarrow> e = env \<and> b = bp \<longrightarrow>
        (\<forall>u t. r = Inr (u, t) \<longrightarrow> prj_kept env bp H B s \<longrightarrow> prj_kept env bp H B t)"
      and eq: "(if n = 0 then Some (Inr ((), s)) else case pcieuni_fill_prj_info e b (a + 0) s of
        Inl e \<Rightarrow> Some (Inl e) | Inr (n, s') \<Rightarrow> f e b a n s') = Some r"
      and prems: "e = env \<and> b = bp" "r = Inr (u, t)" "prj_kept env bp H B s"
    show "prj_kept env bp H B t"
      using eq prems IH keepsD [OF keeps_fill_prj prems(3), of a]
      by (auto split: if_splits sum.splits)
  qed simp
  with assms show ?thesis by blast
qed

lemma keeps_probe_info: "keeps (prj_kept env bp H B) (probe_info env bp)"
  unfolding probe_info_def pcieuni_get_brdinfo_def pcieuni_get_prjinfo_def prj_from_bar_def upd_brd_def Let_def
  by (intro keeps_intros keeps_upd keeps_get_dev keeps_ioread32 keeps_kloop; (simp; fail)?)
     (blast intro: prj_chain_keeps prj_in_bar_keeps)+


section \<open>The whole of probe\<close>

text \<open>A module with a free board: the first one, with no device, no projects and no node.\<close>

definition slot_free :: "ptr \<Rightarrow> pcieuni_cdev \<Rightarrow> nat \<Rightarrow> pcieuni_dev \<Rightarrow> kst \<Rightarrow> bool" where
  "slot_free cp c m d s \<longleftrightarrow> cp \<noteq> NULL \<and> k_cdev s cp = Some c \<and> length (pcieuni_dev_m c) = 16 \<and> m < PCIEUNI_NR_DEVS \<and>
     pcieuni_dev_m c ! m \<noteq> NULL \<and> k_dev s (pcieuni_dev_m c ! m) = Some d \<and> binded d = 0 \<and> dev_sts d = 0 \<and>
     prj_info_list d = [] \<and>
     (\<forall>j < m. pcieuni_dev_m c ! j \<noteq> NULL \<and> (\<exists>e. k_dev s (pcieuni_dev_m c ! j) = Some e \<and> binded e \<noteq> 0))"

lemma slot_freeD:
  assumes "slot_free cp c m d s"
  shows "cp \<noteq> NULL" "k_cdev s cp = Some c" "length (pcieuni_dev_m c) = 16" "m < 15" "pcieuni_dev_m c ! m \<noteq> NULL"
    "k_dev s (pcieuni_dev_m c ! m) = Some d" "binded d = 0" "dev_sts d = 0" "prj_info_list d = []"
    "\<forall>j < m. pcieuni_dev_m c ! j \<noteq> NULL \<and> (\<exists>e. k_dev s (pcieuni_dev_m c ! j) = Some e \<and> binded e \<noteq> 0)"
  using assms by (simp_all add: slot_free_def)

lemma find_slot_free: "slot_free cp c m d s \<Longrightarrow> find_slot cp [0..<15] s = Inr (Some m, s)"
proof -
  assume free: "slot_free cp c m d s"
  note f = slot_freeD [OF free]
  have "[0..<15] = [0..<m] @ m # [Suc m..<15]" using f(4) upt_add_eq_append [of 0 m "15 - m"] by (simp add: upt_conv_Cons)
  moreover have "find_slot cp ([0..<m] @ m # [Suc m..<15]) s = Inr (Some m, s)"
    using f by (intro find_slot_run) auto
  ultimately show ?thesis by simp
qed

lemma card_slot_range: "0 \<le> sint (card_slot cd) \<and> sint (card_slot cd) < 8192"
proof -
  have "unat (card_slot cd) = unat (card_slot_cap cd) div 2 ^ 19"
    by (simp add: card_slot_def drop_bit_eq_div unat_div)
  then have small: "unat (card_slot cd) < 8192" using unat_u32_less [of "card_slot_cap cd"] by (simp add: less_mult_imp_div_less)
  then have "int (unat (card_slot cd)) < 8192" by linarith
  then have u: "uint (card_slot cd) < 8192" by simp
  have "- (2 ^ 31) \<le> uint (card_slot cd)" by (rule order_trans [OF _ uint_ge_0]) simp
  with u have "sint (card_slot cd) = uint (card_slot cd)"
    by (simp add: sint_uint signed_take_bit_int_eq_self_iff)
  with u show ?thesis by simp
qed

definition node_no :: "pcieuni_cdev \<Rightarrow> nat \<Rightarrow> c_int" where
  "node_no c m = MKDEV (PCIEUNI_MAJOR c) (PCIEUNI_MINOR c + of_nat m)"

definition cdev_bound :: "ptr \<Rightarrow> pcieuni_cdev \<Rightarrow> pcieuni_cdev" where
  "cdev_bound entry c = c\<lparr>pcieuni_procdir := entry, pcieuniModuleNum := pcieuniModuleNum c + 1\<rparr>"

lemma probe_nodes_run:
  assumes "cp \<noteq> NULL" "k_cdev s cp = Some c" "bp \<noteq> NULL" "k_dev s bp = Some d" "dev_sts d = 0"
    "length (board_name dn slot) < 32"
  shows "\<exists>entry. probe_nodes env cp bp m dn slot s = Inr ((),
    (put_dev bp (d\<lparr>dev_sts := 1, name := board_name dn slot\<rparr>)
      [Node (Proc_create (board_name dn slot) bp), Node (Device_create (pcieuni_class c) (node_no c m) (board_name dn slot))] s)
    \<lparr>k_cdev := (k_cdev s)(cp \<mapsto> cdev_bound entry c)\<rparr>)"
  using assms
  by (simp add: probe_nodes_def register_gpcieuni_proc_def km_simps Let_def sprintf_to_def put_dev_def log_add_def
      node_no_def cdev_bound_def) (metis)


text \<open>The board as probe leaves it, but for the values that depend on what the calls answer.\<close>

definition card_irqs :: "pci_card \<Rightarrow> pcieuni_dev \<Rightarrow> pcieuni_dev" where
  "card_irqs cd d = d\<lparr>irq_flag := (if card_msi cd then 0 else IRQF_SHARED), msi := (if card_msi cd then 1 else 0),
     pci_dev_irq := card_irq cd, irq_mode := 0\<rparr>"

definition mapped_dev :: "kenv \<Rightarrow> ptr \<Rightarrow> pci_card \<Rightarrow> c_int \<Rightarrow> pcieuni_dev \<Rightarrow> pcieuni_dev" where
  "mapped_dev env dev cd x d = bars_new env dev cd (card_ids cd (d\<lparr>binded := 1, slot_num := card_slot cd,
     dev_num := card_slot cd, bus_func := card_bus_func env dev, pcieuni_pci_dev := dev, dev_dma_64mask := x,
     pcieuni_all_mems := 0\<rparr>))"

definition probed_dev ::
  "kenv \<Rightarrow> ptr \<Rightarrow> pci_card \<Rightarrow> string \<Rightarrow> c_int \<Rightarrow> pcieuni_brd_info \<Rightarrow> pcieuni_prj_info list \<Rightarrow> pcieuni_dev \<Rightarrow> pcieuni_dev" where
  "probed_dev env dev cd dn x b ps d =
     (let d1 = mapped_dev env dev cd x d
      in (card_irqs cd (info_dev (brd_found (card_regs cd) d1) b ps d1))\<lparr>dev_sts := 1, name := board_name dn (card_slot cd)\<rparr>)"

definition card_at :: "kenv \<Rightarrow> ptr \<Rightarrow> pci_card \<Rightarrow> nat \<Rightarrow> ptr" where
  "card_at env dev cd k = (if bar_start env dev k \<noteq> 0 then card_base cd k else NULL)"

lemma mapped_bases:
  "memmory_base (bar0 (mapped_dev env dev cd x d)) = card_at env dev cd 0"
  "memmory_base (bar1 (mapped_dev env dev cd x d)) = card_at env dev cd 1"
  "memmory_base (bar2 (mapped_dev env dev cd x d)) = card_at env dev cd 2"
  "memmory_base (bar3 (mapped_dev env dev cd x d)) = card_at env dev cd 3"
  "memmory_base (bar4 (mapped_dev env dev cd x d)) = card_at env dev cd 4"
  "memmory_base (bar5 (mapped_dev env dev cd x d)) = card_at env dev cd 5"
  by (simp_all add: mapped_dev_def bars_new_def bar_new_def card_at_def)

lemma mapped_scan: "prj_scan regs (dev_base (mapped_dev env dev cd x d)) offs \<longleftrightarrow> prj_scan regs (card_at env dev cd) offs"
  by (simp add: prj_scan_def mapped_bases)

definition irq_res :: "ptr \<Rightarrow> pci_card \<Rightarrow> bus_resource multiset" where
  "irq_res dev cd = (if card_msi cd then {#RMsi dev#} else {#})"

text \<open>
  What probe relies on: the device is there, memory and the proc entry can be had, the scan of the
  project headers ends, and the driver's name fits the array for the name of the proc entry.
\<close>

definition probe_ready :: "kenv \<Rightarrow> ptr \<Rightarrow> pci_card \<Rightarrow> c_int list \<Rightarrow> string \<Rightarrow> bool" where
  "probe_ready env dev cd offs dn \<longleftrightarrow> card_there env dev cd \<and> memory_plenty env \<and> (\<forall>l. proc_create_ret env l \<noteq> NULL) \<and>
     prj_scan (card_regs cd) (card_at env dev cd) offs \<and> length dn \<le> 26"

lemma bus_held_masks [simp]:
  "set new \<subseteq> {Pci (Dma_set_mask dev 64), Pci (Dma_set_mask dev 32)} \<Longrightarrow> bus_held env (new @ l) = bus_held env l"
  by (induction new) auto

lemma held_masks [simp]:
  "set new \<subseteq> {Pci (Dma_set_mask dev 64), Pci (Dma_set_mask dev 32)} \<Longrightarrow> held env (new @ l) = held env l"
  by (induction new) auto

lemma held_bars_log [simp]: "held env (bars_log env dev cd @ l) = held env l"
  by (simp add: bars_log_def)

text \<open>Up to the board information.\<close>

lemma probe_maps:
  assumes free: "slot_free cp c m d s" and there: "card_there env dev cd" and bp: "bp = pcieuni_dev_m c ! m"
  shows "\<exists>x new. pcieuni_probe_exp env dev cp dn n0 s =
      kseq (probe_info env bp) (kseq (probe_irq env dev bp) (kseq (probe_nodes env cp bp m dn (card_slot cd)) (kret (0, of_nat m))))
        ((put_dev bp (mapped_dev env dev cd x d) new s)\<lparr>k_drvdata := (k_drvdata s)(dev := bp)\<rparr>) \<and>
    held env (new @ k_log s) = held env (k_log s) \<and>
    bus_held env (new @ k_log s) = {#REnabled dev, RRegions dev#} + bars_res dev (mapped_dev env dev cd x d) + bus_held env (k_log s)"
proof -
  note f = slot_freeD [OF free] and t = card_thereD [OF there]
  let ?pre = "[Pci (Pci_set_master dev), Pci (Pci_request_regions dev), Pci (Pci_enable_device dev)]"
  let ?d1 = "d\<lparr>binded := 1, slot_num := card_slot cd, dev_num := card_slot cd, bus_func := card_bus_func env dev, pcieuni_pci_dev := dev\<rparr>"
  let ?s0 = "put_dev bp (d\<lparr>binded := 1\<rparr>) ?pre s"
  let ?s1 = "(put_dev bp ?d1 ?pre s)\<lparr>k_drvdata := (k_drvdata s)(dev := bp)\<rparr>"
  have loc: "probe_location env dev bp ?s0 = Inr (card_slot cd, put_dev bp ?d1 ?pre s)"
    using probe_location_run [OF there, of bp ?s0 "d\<lparr>binded := 1\<rparr>"] f bp by simp
  from probe_dma_mask_run [of bp ?s1 ?d1 env dev] f bp obtain x new where
    dma: "probe_dma_mask env dev bp ?s1 = Inr ((), put_dev bp (?d1\<lparr>dev_dma_64mask := x\<rparr>) new ?s1)"
    and new: "set new \<subseteq> {Pci (Dma_set_mask dev 64), Pci (Dma_set_mask dev 32)}" by auto
  let ?s2 = "put_dev bp (?d1\<lparr>dev_dma_64mask := x\<rparr>) new ?s1"
  let ?d3 = "card_ids cd (?d1\<lparr>dev_dma_64mask := x, pcieuni_all_mems := 0\<rparr>)"
  let ?s3 = "put_dev bp ?d3 new ?s1"
  have ids: "probe_ids env dev bp ?s2 = Inr ((), ?s3)"
    using probe_ids_run [OF there, of bp ?s2] f bp by simp
  have bars: "probe_bars env dev bp ?s3 = Inr ((), put_dev bp (bars_new env dev cd ?d3) (bars_log env dev cd) ?s3)"
    using f bp by (intro probe_bars_run [OF there]) (simp_all add: card_ids_def)
  have md: "bars_new env dev cd ?d3 = mapped_dev env dev cd x d" by (simp add: mapped_dev_def)
  have state: "put_dev bp (bars_new env dev cd ?d3) (bars_log env dev cd) ?s3 =
      (put_dev bp (mapped_dev env dev cd x d) (bars_log env dev cd @ new @ ?pre) s)\<lparr>k_drvdata := (k_drvdata s)(dev := bp)\<rparr>"
    by (simp add: md put_dev_def)
  have start: "upd_dev bp (binded_update (\<lambda>_. 1)) s = Inr ((), put_dev bp (d\<lparr>binded := 1\<rparr>) [] s)"
    using f bp by (simp add: km_simps put_dev_def)
  have pre: "log_add (Pci (Pci_set_master dev)) (log_add (Pci (Pci_request_regions dev))
      (log_add (Pci (Pci_enable_device dev)) (put_dev bp (d\<lparr>binded := 1\<rparr>) [] s))) = ?s0"
    by (simp add: put_dev_def log_add_def)
  have drv: "(put_dev bp ?d1 ?pre s)\<lparr>k_drvdata := (k_drvdata (put_dev bp ?d1 ?pre s))(dev := bp)\<rparr> = ?s1" by simp
  have "pcieuni_probe_exp env dev cp dn n0 s =
      kseq (probe_info env bp) (kseq (probe_irq env dev bp) (kseq (probe_nodes env cp bp m dn (card_slot cd)) (kret (0, of_nat m))))
        (put_dev bp (bars_new env dev cd ?d3) (bars_log env dev cd) ?s3)"
    unfolding pcieuni_probe_exp_def probe_payload_def
    using t(1,2) f(1,2) find_slot_free [OF free]
    by (simp add: km_simps Let_def bp [symmetric] start pre loc drv dma ids bars del: put_dev_put_dev upt_Suc)
  moreover have "held env (bars_log env dev cd @ new @ ?pre @ k_log s) = held env (k_log s)" using new by simp
  moreover have "bus_held env (bars_log env dev cd @ new @ ?pre @ k_log s) =
      {#REnabled dev, RRegions dev#} + bars_res dev (mapped_dev env dev cd x d) + bus_held env (k_log s)"
    using new t(1,2) by (simp add: bus_held_bars_log [of env dev cd _ ?d3] md)
  ultimately show ?thesis unfolding state by (intro exI [of _ x] exI [of _ "bars_log env dev cd @ new @ ?pre"]) simp
qed


definition card_found :: "kenv \<Rightarrow> ptr \<Rightarrow> pci_card \<Rightarrow> bool" where
  "card_found env dev cd \<longleftrightarrow> card_at env dev cd 0 \<noteq> NULL \<and> board_magic (card_regs cd (card_at env dev cd 0))"

lemma mapped_found: "brd_found (card_regs cd) (mapped_dev env dev cd x d) \<longleftrightarrow> card_found env dev cd"
  by (simp add: brd_found_def card_found_def mapped_bases)

lemma mapped_frame [simp]:
  "dev_sts (mapped_dev env dev cd x d) = dev_sts d" "prj_info_list (mapped_dev env dev cd x d) = prj_info_list d"
  "brd_info_list (mapped_dev env dev cd x d) = brd_info_list d"
  by (simp_all add: mapped_dev_def bars_new_def card_ids_def)

text \<open>What the whole of probe leaves.\<close>

definition probe_left :: "kenv \<Rightarrow> ptr \<Rightarrow> pci_card \<Rightarrow> c_int list \<Rightarrow> string \<Rightarrow> ptr \<Rightarrow> pcieuni_cdev \<Rightarrow> nat \<Rightarrow>
    pcieuni_dev \<Rightarrow> pcieuni_dev \<Rightarrow> kst \<Rightarrow> kst \<Rightarrow> bool" where
  "probe_left env dev cd offs dn cp c m d d' s t \<longleftrightarrow>
     k_dev t = (k_dev s)(pcieuni_dev_m c ! m \<mapsto> d') \<and> (\<exists>entry. k_cdev t = (k_cdev s)(cp \<mapsto> cdev_bound entry c)) \<and>
     k_drvdata t = (k_drvdata s)(dev := pcieuni_dev_m c ! m) \<and> k_priv t = k_priv s \<and>
     (\<exists>x b ps. d' = probed_dev env dev cd dn x b ps d \<and>
        map (prj_addr_update (\<lambda>_. 0)) ps = prj_headers (card_regs cd) (card_at env dev cd 0) offs \<and>
        b\<lparr>BRD_PROJ_NEXT := 0\<rparr> = (if card_found env dev cd then brd_header (card_regs cd) (card_at env dev cd 0) (brd_info_list d)
          else brd_info_list d)\<lparr>BRD_PROJ_NEXT := 0\<rparr>) \<and>
     held env (k_log t) = held env (k_log s) + mset (map (RMem \<circ> prj_addr) (prj_info_list d')) \<and>
     bus_held env (k_log t) = {#REnabled dev, RRegions dev, RNode (pcieuni_class c) (node_no c m), RProc (board_name dn (card_slot cd))#} +
       bars_res dev d' + irq_res dev cd + bus_held env (k_log s)"

text \<open>From the board information on.\<close>

lemma probe_rest:
  fixes s :: kst
  assumes ready: "probe_ready env dev cd offs dn" and cp: "cp \<noteq> NULL" "k_cdev s cp = Some c"
    and bp: "bp \<noteq> NULL" "k_dev s bp = Some d1" and d1: "d1 = mapped_dev env dev cd x d" "dev_sts d = 0" "prj_info_list d = []"
  shows "\<exists>b ps new entry. kseq (probe_info env bp) (kseq (probe_irq env dev bp)
      (kseq (probe_nodes env cp bp m dn (card_slot cd)) (kret (0 :: c_int, of_nat m :: c_int)))) s =
      Inr ((0, of_nat m), (put_dev bp (probed_dev env dev cd dn x b ps d) new s)\<lparr>k_cdev := (k_cdev s)(cp \<mapsto> cdev_bound entry c)\<rparr>) \<and>
    map (prj_addr_update (\<lambda>_. 0)) ps = prj_headers (card_regs cd) (card_at env dev cd 0) offs \<and>
    b\<lparr>BRD_PROJ_NEXT := 0\<rparr> = (if card_found env dev cd then brd_header (card_regs cd) (card_at env dev cd 0) (brd_info_list d)
      else brd_info_list d)\<lparr>BRD_PROJ_NEXT := 0\<rparr> \<and>
    held env (new @ k_log s) = held env (k_log s) + mset (map (RMem \<circ> prj_addr) (rev ps)) \<and>
    bus_held env (new @ k_log s) = {#RNode (pcieuni_class c) (node_no c m), RProc (board_name dn (card_slot cd))#} +
      irq_res dev cd + bus_held env (k_log s)"
proof -
  let ?nm = "board_name dn (card_slot cd)"
  from ready have there: "card_there env dev cd" and mem: "memory_plenty env" and proc: "\<And>l. proc_create_ret env l \<noteq> NULL"
    and scan: "prj_scan (card_regs cd) (card_at env dev cd) offs" and dn: "length dn \<le> 26" by (simp_all add: probe_ready_def)
  note t = card_thereD [OF there]
  from probe_info_run [OF t(8) mem bp, of offs] scan d1 obtain b ps l where
    info: "probe_info env bp s = Inr ((), put_dev bp (info_dev (card_found env dev cd) b ps d1) l s)"
    and ps: "map (prj_addr_update (\<lambda>_. 0)) ps = prj_headers (card_regs cd) (card_at env dev cd 0) offs"
    and b: "b\<lparr>BRD_PROJ_NEXT := 0\<rparr> = (if card_found env dev cd then brd_header (card_regs cd) (card_at env dev cd 0) (brd_info_list d)
          else brd_info_list d)\<lparr>BRD_PROJ_NEXT := 0\<rparr>"
    by (auto simp: mapped_scan mapped_found mapped_bases cong: if_cong)
  let ?d2 = "info_dev (card_found env dev cd) b ps d1"
  let ?s2 = "put_dev bp ?d2 l s"
  have "prj_kept env bp (held env (k_log s)) (bus_held env (k_log s)) s" using bp(2) d1 by (simp add: prj_kept_def)
  from keepsD [OF keeps_probe_info this info] d1 have
    h: "held env (l @ k_log s) = held env (k_log s) + mset (map (RMem \<circ> prj_addr) (rev ps))"
    and r: "bus_held env (l @ k_log s) = bus_held env (k_log s)" by (auto simp: prj_kept_def info_dev_def)
  have irq: "probe_irq env dev bp ?s2 = Inr ((), put_dev bp (card_irqs cd ?d2) [Pci (Pci_enable_msi dev)] ?s2)"
    using probe_irq_run [OF there bp(1), of ?s2 ?d2] by (simp add: card_irqs_def)
  let ?s3 = "put_dev bp (card_irqs cd ?d2) [Pci (Pci_enable_msi dev)] ?s2"
  let ?made = "[Node (Proc_create ?nm bp), Node (Device_create (pcieuni_class c) (node_no c m) ?nm)]"
  have "length ?nm < 32" using dn card_slot_range by (intro board_name_length) simp_all
  then obtain entry where nodes: "probe_nodes env cp bp m dn (card_slot cd) ?s3 = Inr ((),
      (put_dev bp ((card_irqs cd ?d2)\<lparr>dev_sts := 1, name := ?nm\<rparr>) ?made ?s3)\<lparr>k_cdev := (k_cdev ?s3)(cp \<mapsto> cdev_bound entry c)\<rparr>)"
    using probe_nodes_run [of cp ?s3 c bp "card_irqs cd ?d2" dn "card_slot cd" env m] cp bp(1) d1
    by (auto simp: card_irqs_def info_dev_def)
  have "(card_irqs cd ?d2)\<lparr>dev_sts := 1, name := ?nm\<rparr> = probed_dev env dev cd dn x b ps d"
    by (simp add: probed_dev_def Let_def mapped_found d1(1))
  with info irq nodes have "kseq (probe_info env bp) (kseq (probe_irq env dev bp)
      (kseq (probe_nodes env cp bp m dn (card_slot cd)) (kret (0 :: c_int, of_nat m :: c_int)))) s =
      Inr ((0, of_nat m), (put_dev bp (probed_dev env dev cd dn x b ps d) (?made @ Pci (Pci_enable_msi dev) # l) s)
        \<lparr>k_cdev := (k_cdev s)(cp \<mapsto> cdev_bound entry c)\<rparr>)"
    by (simp add: kseq_def kbind_def kret_app)
  moreover have "held env ((?made @ Pci (Pci_enable_msi dev) # l) @ k_log s) = held env (k_log s) + mset (map (RMem \<circ> prj_addr) (rev ps))"
    using h by simp
  moreover have "bus_held env ((?made @ Pci (Pci_enable_msi dev) # l) @ k_log s) =
      {#RNode (pcieuni_class c) (node_no c m), RProc ?nm#} + irq_res dev cd + bus_held env (k_log s)"
    using r t(9) proc by (simp add: irq_res_def)
  ultimately show ?thesis using ps b by blast
qed

lemma probed_res [simp]:
  "bars_res dev (probed_dev env dev cd dn x b ps d) = bars_res dev (mapped_dev env dev cd x d)"
  "prj_info_list (probed_dev env dev cd dn x b ps d) = rev ps @ prj_info_list d"
  by (simp_all add: bars_res_def probed_dev_def Let_def card_irqs_def info_dev_def)

lemma probe_run:
  assumes free: "slot_free cp c m d s" and ready: "probe_ready env dev cd offs dn"
  shows "\<exists>d' t. pcieuni_probe_exp env dev cp dn n0 s = Inr ((0, of_nat m), t) \<and> probe_left env dev cd offs dn cp c m d d' s t"
proof -
  note f = slot_freeD [OF free]
  from ready have there: "card_there env dev cd" by (simp add: probe_ready_def)
  define bp where "bp = pcieuni_dev_m c ! m"
  from probe_maps [OF free there bp_def, of dn n0] obtain x new where
    maps: "pcieuni_probe_exp env dev cp dn n0 s =
      kseq (probe_info env bp) (kseq (probe_irq env dev bp) (kseq (probe_nodes env cp bp m dn (card_slot cd)) (kret (0 :: c_int, of_nat m :: c_int))))
        ((put_dev bp (mapped_dev env dev cd x d) new s)\<lparr>k_drvdata := (k_drvdata s)(dev := bp)\<rparr>)"
    and h1: "held env (new @ k_log s) = held env (k_log s)"
    and r1: "bus_held env (new @ k_log s) = {#REnabled dev, RRegions dev#} + bars_res dev (mapped_dev env dev cd x d) + bus_held env (k_log s)"
    by blast
  let ?s1 = "(put_dev bp (mapped_dev env dev cd x d) new s)\<lparr>k_drvdata := (k_drvdata s)(dev := bp)\<rparr>"
  from probe_rest [OF ready f(1), of ?s1 c bp _ x d m] f obtain b ps l entry where
    run: "kseq (probe_info env bp) (kseq (probe_irq env dev bp) (kseq (probe_nodes env cp bp m dn (card_slot cd)) (kret (0 :: c_int, of_nat m :: c_int)))) ?s1 =
      Inr ((0, of_nat m), (put_dev bp (probed_dev env dev cd dn x b ps d) l ?s1)\<lparr>k_cdev := (k_cdev s)(cp \<mapsto> cdev_bound entry c)\<rparr>)"
    and ps: "map (prj_addr_update (\<lambda>_. 0)) ps = prj_headers (card_regs cd) (card_at env dev cd 0) offs"
    and b: "b\<lparr>BRD_PROJ_NEXT := 0\<rparr> = (if card_found env dev cd then brd_header (card_regs cd) (card_at env dev cd 0) (brd_info_list d)
      else brd_info_list d)\<lparr>BRD_PROJ_NEXT := 0\<rparr>"
    and h2: "held env (l @ new @ k_log s) = held env (new @ k_log s) + mset (map (RMem \<circ> prj_addr) (rev ps))"
    and r2: "bus_held env (l @ new @ k_log s) = {#RNode (pcieuni_class c) (node_no c m), RProc (board_name dn (card_slot cd))#} +
      irq_res dev cd + bus_held env (new @ k_log s)"
    by (auto simp: bp_def)
  let ?t = "(put_dev bp (probed_dev env dev cd dn x b ps d) l ?s1)\<lparr>k_cdev := (k_cdev s)(cp \<mapsto> cdev_bound entry c)\<rparr>"
  have "held env (k_log ?t) = held env (k_log s) + mset (map (RMem \<circ> prj_addr) (prj_info_list (probed_dev env dev cd dn x b ps d)))"
    "bus_held env (k_log ?t) = {#REnabled dev, RRegions dev, RNode (pcieuni_class c) (node_no c m), RProc (board_name dn (card_slot cd))#} +
       bars_res dev (probed_dev env dev cd dn x b ps d) + irq_res dev cd + bus_held env (k_log s)"
    using h1 h2 r1 r2 f(9) by (simp_all add: add_mset_commute)
  then have "probe_left env dev cd offs dn cp c m d (probed_dev env dev cd dn x b ps d) s ?t"
    unfolding probe_left_def using ps b by (intro conjI; (blast | simp add: bp_def; blast | simp add: bp_def))
  with maps run show ?thesis by (intro exI [of _ "probed_dev env dev cd dn x b ps d"] exI [of _ ?t]) simp
qed

section \<open>Properties of probe\<close>

lemma ucast_zero_iff: "(ucast (w :: u64) :: u32) = 0 \<longleftrightarrow> 2 ^ 32 dvd unat w"
proof -
  have "(ucast w :: u32) = 0 \<longleftrightarrow> unat (ucast w :: u32) = 0" by (simp add: unsigned_eq_0_iff)
  also have "unat (ucast w :: u32) = unat w mod 2 ^ 32" by (simp add: unsigned_ucast_eq take_bit_eq_mod)
  finally show ?thesis by (simp add: dvd_eq_mod_eq_0)
qed

lemma ucast_diff_exact:
  fixes a b :: u64
  assumes "unat a \<le> unat b" "unat b - unat a < 2 ^ 32"
  shows "unat (ucast b - ucast a :: u32) = unat b - unat a"
proof -
  have "int (unat (ucast b - ucast a :: u32)) = (int (unat b) mod 2 ^ 32 - int (unat a) mod 2 ^ 32) mod 2 ^ 32"
    by (simp add: uint_word_ariths unsigned_ucast_eq take_bit_eq_mod)
  also have "\<dots> = (int (unat b) - int (unat a)) mod 2 ^ 32" by (rule mod_diff_eq)
  also have "\<dots> = int (unat b - unat a) mod 2 ^ 32" using assms(1) by (simp only: of_nat_diff)
  also have "\<dots> = int (unat b - unat a)" using assms(2) by (intro mod_pos_pos_trivial) simp_all
  finally show ?thesis by (simp only: of_nat_eq_iff)
qed

lemma less_6: "(k :: nat) < 6 \<Longrightarrow> k \<in> {0, 1, 2, 3, 4, 5}"
  by auto

lemma probed_bar:
  assumes "k < 6"
  shows "\<exists>b. dev_bar (probed_dev env dev cd dn x bi ps d) k = Some b \<and> mem_base b = bar_start env dev k \<and>
    memmory_base b = card_at env dev cd k \<and> (bar_start env dev k \<noteq> 0 \<longrightarrow> rw_off b = bar_len env dev k) \<and>
    mem_base_end b = ucast (pci_resource_end_ret env dev k)"
  using less_6 [OF assms]
  by (auto simp: dev_bar_def probed_dev_def Let_def card_irqs_def info_dev_def mapped_dev_def bars_new_def
      bar_new_def card_at_def)

lemma probed_fields [simp]:
  "binded (probed_dev env dev cd dn x b ps d) = 1" "dev_sts (probed_dev env dev cd dn x b ps d) = 1"
  "pcieuni_pci_dev (probed_dev env dev cd dn x b ps d) = dev" "slot_num (probed_dev env dev cd dn x b ps d) = card_slot cd"
  "name (probed_dev env dev cd dn x b ps d) = board_name dn (card_slot cd)"
  "vendor_id (probed_dev env dev cd dn x b ps d) = card_word cd PCI_VENDOR_ID"
  "device_id (probed_dev env dev cd dn x b ps d) = card_word cd PCI_DEVICE_ID"
  "subvendor_id (probed_dev env dev cd dn x b ps d) = card_word cd PCI_SUBSYSTEM_VENDOR_ID"
  "subdevice_id (probed_dev env dev cd dn x b ps d) = card_word cd PCI_SUBSYSTEM_ID"
  "class_code (probed_dev env dev cd dn x b ps d) = card_word cd PCI_CLASS_DEVICE"
  "bus_func (probed_dev env dev cd dn x b ps d) = card_bus_func env dev"
  "revision (probed_dev env dev cd dn x b ps d) = card_byte cd PCI_REVISION"
  "pcieuni_all_mems (probed_dev env dev cd dn x b ps d) = bars_mask env dev"
  "msi (probed_dev env dev cd dn x b ps d) = (if card_msi cd then 1 else 0)"
  "irq_mode (probed_dev env dev cd dn x b ps d) = 0" "pci_dev_irq (probed_dev env dev cd dn x b ps d) = card_irq cd"
  "irq_flag (probed_dev env dev cd dn x b ps d) = (if card_msi cd then 0 else IRQF_SHARED)"
  "brd_info_list (probed_dev env dev cd dn x b ps d) = b"
  "brd_num (probed_dev env dev cd dn x b ps d) = brd_num d" "dev_mut (probed_dev env dev cd dn x b ps d) = dev_mut d"
  "dev_file_list (probed_dev env dev cd dn x b ps d) = dev_file_list d"
  "dev_file_ref (probed_dev env dev cd dn x b ps d) = dev_file_ref d"
  "parent_dev (probed_dev env dev cd dn x b ps d) = parent_dev d"
  by (simp_all add: probed_dev_def Let_def card_irqs_def info_dev_def mapped_dev_def bars_new_def card_ids_def)

lemma probed_startup [simp]: "startup_brd (probed_dev env dev cd dn x b ps d) = (if card_found env dev cd then 1 else 0)"
  by (simp add: probed_dev_def Let_def card_irqs_def info_dev_def mapped_found)

lemma brd_header_next:
  assumes "b\<lparr>BRD_PROJ_NEXT := 0\<rparr> = (brd_header regs a bi)\<lparr>BRD_PROJ_NEXT := 0\<rparr>"
  shows "PCIEUNI_BOARD_ID b = regs (a + 0x04)" "PCIEUNI_BOARD_VERSION b = regs (a + 0x08)"
  using arg_cong [OF assms, of PCIEUNI_BOARD_ID] arg_cong [OF assms, of PCIEUNI_BOARD_VERSION]
  by (simp_all add: brd_header_def)

text \<open>
  C5: probe binds a device to the first free board. It returns 0 and the number of the board; the
  board is marked as bound and live, with the identity of the device, its place on the bus and its
  name; the slot is the upper 13 bits of the slot capabilities register (register 20 of the PCI
  Express capability) of the bridge above the device. Each BAR with an address has been mapped and
  recorded with the distance from its first to its last byte; the interrupt is the one of the
  device; the board header and the chain of projects have been read. Files and counters of the
  board are untouched, so are all other boards, and one more module is counted.
\<close>

theorem probe_binds_board:
  assumes "slot_free cp c m d s" "probe_ready env dev cd offs dn"
  shows "\<exists>d' t entry. pcieuni_probe_exp env dev cp dn n0 s = Inr ((0, of_nat m), t) \<and>
    k_dev t = (k_dev s)(pcieuni_dev_m c ! m \<mapsto> d') \<and> k_drvdata t = (k_drvdata s)(dev := pcieuni_dev_m c ! m) \<and>
    k_cdev t = (k_cdev s)(cp \<mapsto> c\<lparr>pcieuni_procdir := entry, pcieuniModuleNum := pcieuniModuleNum c + 1\<rparr>) \<and>
    binded d' = 1 \<and> dev_sts d' = 1 \<and> pcieuni_pci_dev d' = dev \<and> slot_num d' = card_slot cd \<and>
    bus_func d' = card_bus_func env dev \<and>
    name d' = board_name dn (card_slot cd) \<and> vendor_id d' = card_word cd PCI_VENDOR_ID \<and>
    device_id d' = card_word cd PCI_DEVICE_ID \<and> subvendor_id d' = card_word cd PCI_SUBSYSTEM_VENDOR_ID \<and>
    subdevice_id d' = card_word cd PCI_SUBSYSTEM_ID \<and> class_code d' = card_word cd PCI_CLASS_DEVICE \<and>
    revision d' = card_byte cd PCI_REVISION \<and>
    (\<forall>k < 6. \<exists>b. dev_bar d' k = Some b \<and> mem_base b = bar_start env dev k \<and> memmory_base b = card_at env dev cd k \<and>
      (bar_start env dev k \<noteq> 0 \<longrightarrow> rw_off b = bar_len env dev k) \<and> mem_base_end b = ucast (pci_resource_end_ret env dev k)) \<and>
    pci_dev_irq d' = card_irq cd \<and> irq_mode d' = 0 \<and> (msi d' = 1 \<longleftrightarrow> card_msi cd) \<and>
    (startup_brd d' = 1 \<longleftrightarrow> card_found env dev cd) \<and>
    (card_found env dev cd \<longrightarrow> PCIEUNI_BOARD_ID (brd_info_list d') = card_regs cd (card_at env dev cd 0 + 4) \<and>
      PCIEUNI_BOARD_VERSION (brd_info_list d') = card_regs cd (card_at env dev cd 0 + 8)) \<and>
    map (prj_addr_update (\<lambda>_. 0)) (prj_info_list d') = rev (prj_headers (card_regs cd) (card_at env dev cd 0) offs) \<and>
    brd_num d' = brd_num d \<and> dev_file_list d' = dev_file_list d \<and> dev_file_ref d' = dev_file_ref d \<and> dev_mut d' = dev_mut d"
proof -
  from probe_run [OF assms, of n0] obtain d' t where
    run: "pcieuni_probe_exp env dev cp dn n0 s = Inr ((0, of_nat m), t)" and left: "probe_left env dev cd offs dn cp c m d d' s t" by blast
  from left obtain entry x b ps where
    l: "k_dev t = (k_dev s)(pcieuni_dev_m c ! m \<mapsto> d')" "k_drvdata t = (k_drvdata s)(dev := pcieuni_dev_m c ! m)"
      "k_cdev t = (k_cdev s)(cp \<mapsto> cdev_bound entry c)"
    and d': "d' = probed_dev env dev cd dn x b ps d"
    and ps: "map (prj_addr_update (\<lambda>_. 0)) ps = prj_headers (card_regs cd) (card_at env dev cd 0) offs"
    and b: "card_found env dev cd \<Longrightarrow> b\<lparr>BRD_PROJ_NEXT := 0\<rparr> =
      (brd_header (card_regs cd) (card_at env dev cd 0) (brd_info_list d))\<lparr>BRD_PROJ_NEXT := 0\<rparr>"
    unfolding probe_left_def by auto
  show ?thesis
    unfolding d' using run l [unfolded d' cdev_bound_def] ps slot_freeD(9) [OF assms(1)] brd_header_next [OF b] probed_bar
    by (intro exI [of _ "probed_dev env dev cd dn x b ps d"] exI [of _ t] exI [of _ entry]) (simp add: rev_map [symmetric])
qed

text \<open>A card in slot 5 with one BAR of 4 KiB, a board header and two projects, and an empty module.\<close>

definition ex_card_env :: kenv where
  "ex_card_env = ex_board\<lparr>pci_resource_start_ret := (\<lambda>_ k. if k = 0 then 0xF0000000 else 0),
     pci_resource_end_ret := (\<lambda>_ k. if k = 0 then 0xF0000FFF else 0), pci_iomap_ret := (\<lambda>_ _ k _. 0xC000),
     pci_config_dword := (\<lambda>_ dev r. if dev = 0x40 \<and> r = 0x40 + 20 then 0x280000 else 0xFFFFFFFF)\<rparr>"

definition ex_card :: pci_card where
  "ex_card = \<lparr>card_word = (\<lambda>_. 0), card_byte = (\<lambda>_. 0), card_slot_cap = 0x280000, card_base = (\<lambda>_. 0xC000),
     card_regs = ex_regs, card_msi = True, card_irq = 0\<rparr>"

definition ex_table :: pcieuni_cdev where
  "ex_table = zero_cdev\<lparr>pcieuni_dev_m := 0x2000 # replicate 14 0x2100 @ [0x2200], PCIEUNI_MAJOR := 240, pcieuni_class := 0x800\<rparr>"

definition ex_module :: kst where
  "ex_module = empty_kst\<lparr>k_dev := [0x2000 \<mapsto> zero_dev, 0x2200 \<mapsto> zero_dev\<lparr>binded := 1, null_dev := 1\<rparr>], k_cdev := [0x300 \<mapsto> ex_table]\<rparr>"

lemma ex_slot_free: "slot_free 0x300 ex_table 0 zero_dev ex_module"
  by (simp add: slot_free_def ex_module_def ex_table_def zero_dev_def)

lemma ex_card_at: "card_at ex_card_env dev ex_card k = (if k = 0 then 0xC000 else 0)"
  by (simp add: card_at_def bar_start_def ex_card_env_def ex_card_def)

lemma ex_probe_ready: "probe_ready ex_card_env 0x500 ex_card [0x100, 0x200] ''pcieuni''"
proof -
  have "card_there ex_card_env 0x500 ex_card"
    by (simp add: card_there_def ex_card_env_def ex_card_def ex_board_def quiet_kernel_def stable_regs_def)
  moreover have "memory_plenty ex_card_env" "\<forall>l. proc_create_ret ex_card_env l \<noteq> NULL"
    by (simp_all add: memory_plenty_def ex_card_env_def ex_board_def quiet_kernel_def)
  moreover have "card_regs ex_card = ex_regs" by (simp add: ex_card_def)
  then have "prj_scan (card_regs ex_card) (card_at ex_card_env 0x500 ex_card) [0x100, 0x200]"
    by (simp add: prj_scan_def ex_card_at) (simp add: ex_regs_def board_magic_def)
  ultimately show ?thesis by (simp add: probe_ready_def)
qed

theorem probe_binds_board_witness:
  "\<exists>t d'. pcieuni_probe_exp ex_card_env 0x500 0x300 ''pcieuni'' 0 ex_module = Inr ((0, 0), t) \<and> k_dev t 0x2000 = Some d' \<and>
     dev_sts d' = 1 \<and> slot_num d' = 5 \<and> length (prj_info_list d') = 2"
proof -
  have "pcieuni_dev_m ex_table ! 0 = 0x2000" "card_slot ex_card = 5" "prj_headers (card_regs ex_card) a [0x100, 0x200] \<noteq> [] \<longrightarrow>
      length (prj_headers (card_regs ex_card) a [0x100, 0x200]) = 2" for a
    by (simp_all add: ex_table_def ex_card_def card_slot_def prj_headers_def)
  moreover from probe_binds_board [OF ex_slot_free ex_probe_ready, of 0] obtain d' t where
    "pcieuni_probe_exp ex_card_env 0x500 0x300 ''pcieuni'' 0 ex_module = Inr ((0, of_nat 0), t)"
    "k_dev t = (k_dev ex_module)(pcieuni_dev_m ex_table ! 0 \<mapsto> d')" "dev_sts d' = 1" "slot_num d' = card_slot ex_card"
    "map (prj_addr_update (\<lambda>_. 0)) (prj_info_list d') =
      rev (prj_headers (card_regs ex_card) (card_at ex_card_env 0x500 ex_card 0) [0x100, 0x200])" by blast
  moreover from this(5) have "length (prj_info_list d') = length [0x100 :: c_int, 0x200]"
    by (metis length_map length_rev prj_headers_def)
  ultimately show ?thesis by simp
qed

text \<open>
  C38: what probe does when it cannot bind. With every board bound it returns -1 and changes
  nothing. When the device cannot be enabled or its regions are taken it returns the error of the
  kernel; the board it had chosen stays marked as bound, for good, though no device uses it. On a
  device without a bridge above it, one on a root bus, it dereferences the null pointer.
\<close>

theorem probe_failures:
  "(cp \<noteq> NULL \<and> k_cdev s cp = Some c \<and>
     (\<forall>j < 15. pcieuni_dev_m c ! j \<noteq> NULL \<and> (\<exists>e. k_dev s (pcieuni_dev_m c ! j) = Some e \<and> binded e \<noteq> 0)) \<longrightarrow>
     pcieuni_probe_exp env dev cp dn n0 s = Inr ((- 1, n0), s)) \<and>
   (slot_free cp c m d s \<longrightarrow>
     (\<forall>err. pci_enable_device_ret env (k_log s) dev = err \<and> err \<noteq> 0 \<longrightarrow> pcieuni_probe_exp env dev cp dn n0 s =
       Inr ((err, of_nat m), put_dev (pcieuni_dev_m c ! m) (d\<lparr>binded := 1\<rparr>) [Pci (Pci_enable_device dev)] s)) \<and>
     (\<forall>err. pci_enable_device_ret env (k_log s) dev = 0 \<and>
         pci_request_regions_ret env (Pci (Pci_enable_device dev) # k_log s) dev = err \<and> err \<noteq> 0 \<longrightarrow>
       pcieuni_probe_exp env dev cp dn n0 s = Inr ((err, of_nat m), (put_dev (pcieuni_dev_m c ! m) (d\<lparr>binded := 1\<rparr>)
         [Pci (Pci_disable_device dev), Pci (Pci_request_regions dev), Pci (Pci_enable_device dev)] s)
         \<lparr>k_drvdata := (k_drvdata s)(dev := NULL)\<rparr>)) \<and>
     (pci_enable_device_ret env (k_log s) dev = 0 \<and> pci_request_regions_ret env (Pci (Pci_enable_device dev) # k_log s) dev = 0 \<and>
       pci_bridge_of env dev = NULL \<longrightarrow> pcieuni_probe_exp env dev cp dn n0 s = Inl NullDeref))"
proof (intro conjI impI allI)
  assume "cp \<noteq> NULL \<and> k_cdev s cp = Some c \<and>
     (\<forall>j < 15. pcieuni_dev_m c ! j \<noteq> NULL \<and> (\<exists>e. k_dev s (pcieuni_dev_m c ! j) = Some e \<and> binded e \<noteq> 0))"
  then have "find_slot cp [0..<15] s = Inr (None, s)" by (intro find_slot_full) auto
  then show "pcieuni_probe_exp env dev cp dn n0 s = Inr ((- 1, n0), s)"
    by (simp add: pcieuni_probe_exp_def km_simps del: upt_Suc)
next
  assume free: "slot_free cp c m d s"
  note f = slot_freeD [OF free] find_slot_free [OF free]
  note run = pcieuni_probe_exp_def km_simps Let_def put_dev_def log_add_def
  { fix err assume "pci_enable_device_ret env (k_log s) dev = err \<and> err \<noteq> 0"
    with f show "pcieuni_probe_exp env dev cp dn n0 s =
       Inr ((err, of_nat m), put_dev (pcieuni_dev_m c ! m) (d\<lparr>binded := 1\<rparr>) [Pci (Pci_enable_device dev)] s)"
      by (simp add: run del: upt_Suc) }
  { fix err assume "pci_enable_device_ret env (k_log s) dev = 0 \<and>
         pci_request_regions_ret env (Pci (Pci_enable_device dev) # k_log s) dev = err \<and> err \<noteq> 0"
    with f show "pcieuni_probe_exp env dev cp dn n0 s = Inr ((err, of_nat m), (put_dev (pcieuni_dev_m c ! m) (d\<lparr>binded := 1\<rparr>)
         [Pci (Pci_disable_device dev), Pci (Pci_request_regions dev), Pci (Pci_enable_device dev)] s)
         \<lparr>k_drvdata := (k_drvdata s)(dev := NULL)\<rparr>)"
      by (simp add: run del: upt_Suc) }
  assume "pci_enable_device_ret env (k_log s) dev = 0 \<and> pci_request_regions_ret env (Pci (Pci_enable_device dev) # k_log s) dev = 0 \<and>
       pci_bridge_of env dev = NULL"
  with f show "pcieuni_probe_exp env dev cp dn n0 s = Inl NullDeref"
    by (simp add: run probe_location_def del: upt_Suc)
qed


theorem probe_failures_witness:
  "pcieuni_probe_exp (ex_card_env\<lparr>pci_enable_device_ret := (\<lambda>_ _. - 5)\<rparr>) 0x500 0x300 ''pcieuni'' 0 ex_module =
     Inr ((- 5, 0), put_dev 0x2000 (zero_dev\<lparr>binded := 1\<rparr>) [Pci (Pci_enable_device 0x500)] ex_module)"
proof -
  have "pcieuni_dev_m ex_table ! 0 = 0x2000" by (simp add: ex_table_def)
  with probe_failures [of "0x300" ex_module ex_table "ex_card_env\<lparr>pci_enable_device_ret := (\<lambda>_ _. - 5)\<rparr>" "0x500" "''pcieuni''" 0 0 zero_dev]
    ex_slot_free show ?thesis by simp
qed

text \<open>The number of bytes of a BAR: both its first and its last address belong to it.\<close>

definition bar_bytes :: "kenv \<Rightarrow> ptr \<Rightarrow> nat \<Rightarrow> nat" where
  "bar_bytes env dev k = unat (pci_resource_end_ret env dev k) - unat (pci_resource_start_ret env dev k) + 1"

text \<open>
  C39: the BARs of a device, whose bus addresses are kept in 32 bits. A BAR of at most 4 GiB whose
  address is not a multiple of 4 GiB is mapped, whatever its address; but the length that is asked
  for in the mapping and recorded is one byte less than the number of bytes of the BAR, since the
  last address of the BAR is taken for its end. A BAR whose address is a multiple of 4 GiB is taken
  for one the device does not have, and is not mapped.
\<close>

theorem probe_bars_32bit:
  assumes "card_there env dev cd" "bp \<noteq> NULL" "k_dev s bp = Some d" "pcieuni_all_mems d = 0"
    "\<forall>k < 6. unat (pci_resource_start_ret env dev k) \<le> unat (pci_resource_end_ret env dev k) \<and> bar_bytes env dev k \<le> 2 ^ 32"
  shows "\<exists>d' new. probe_bars env dev bp s = Inr ((), put_dev bp d' new s) \<and>
    (\<forall>k < 6. \<exists>b. dev_bar d' k = Some b \<and>
      (if 2 ^ 32 dvd unat (pci_resource_start_ret env dev k)
       then memmory_base b = NULL \<and> (\<forall>n a. Pci (Pci_iomap dev k n a) \<notin> set new)
       else memmory_base b = card_base cd k \<and> Pci (Pci_iomap dev k (rw_off b) (card_base cd k)) \<in> set new \<and>
         unat (rw_off b) + 1 = bar_bytes env dev k))"
proof -
  have absent: "bar_start env dev k = 0 \<longleftrightarrow> 2 ^ 32 dvd unat (pci_resource_start_ret env dev k)" for k
    by (simp add: bar_start_def ucast_zero_iff)
  have len: "unat (bar_len env dev k) + 1 = bar_bytes env dev k" if "k < 6" for k
  proof -
    let ?a = "pci_resource_start_ret env dev k" and ?b = "pci_resource_end_ret env dev k"
    from assms(5) that have "unat ?a \<le> unat ?b" "unat ?b - unat ?a + 1 \<le> 2 ^ 32" unfolding bar_bytes_def by blast+
    then have "unat (ucast ?b - ucast ?a :: u32) = unat ?b - unat ?a" by (intro ucast_diff_exact) linarith+
    then show ?thesis by (simp add: bar_len_def bar_start_def bar_bytes_def)
  qed
  have log: "Pci (Pci_iomap dev k n a) \<in> set (bars_log env dev cd) \<longleftrightarrow>
      bar_start env dev k \<noteq> 0 \<and> n = bar_len env dev k \<and> a = card_base cd k" if "k < 6" for k n a
    using less_6 [OF that] by (auto simp: bars_log_def bar_log_def)
  have bar: "dev_bar (bars_new env dev cd d) k = Some (bar_new env dev cd k (the (dev_bar d k)))" if "k < 6" for k
    using less_6 [OF that] by (auto simp: dev_bar_def bars_new_def)
  show ?thesis
    using probe_bars_run [OF assms(1-4)] log len
    by (intro exI [of _ "bars_new env dev cd d"] exI [of _ "bars_log env dev cd"])
       (simp add: bar bar_new_def absent)
qed

definition ex_high_env :: kenv where
  "ex_high_env = ex_card_env\<lparr>pci_resource_start_ret := (\<lambda>_ k. 0x100000000 + 0x4000 * of_nat k),
     pci_resource_end_ret := (\<lambda>_ k. 0x100000FFF + 0x4000 * of_nat k)\<rparr>"

theorem probe_bars_32bit_witness:
  "\<exists>d' new b b'. probe_bars ex_high_env 0x500 0x2000 ex_module = Inr ((), put_dev 0x2000 d' new ex_module) \<and>
     dev_bar d' 0 = Some b \<and> memmory_base b = NULL \<and> dev_bar d' 1 = Some b' \<and>
     bar_bytes ex_high_env 0x500 1 = 0x1000 \<and> unat (rw_off b') = 0xFFF"
proof -
  have "card_there ex_high_env 0x500 ex_card"
    by (simp add: card_there_def ex_high_env_def ex_card_env_def ex_card_def ex_board_def quiet_kernel_def stable_regs_def)
  moreover have "\<forall>k < 6. unat (pci_resource_start_ret ex_high_env 0x500 k) \<le> unat (pci_resource_end_ret ex_high_env 0x500 k) \<and>
      bar_bytes ex_high_env 0x500 k \<le> 2 ^ 32"
    by (auto simp: ex_high_env_def bar_bytes_def dest!: less_6)
  ultimately obtain d' new where run: "probe_bars ex_high_env 0x500 0x2000 ex_module = Inr ((), put_dev 0x2000 d' new ex_module)"
    and bars: "\<forall>k < 6. \<exists>b. dev_bar d' k = Some b \<and>
      (if 2 ^ 32 dvd unat (pci_resource_start_ret ex_high_env 0x500 k)
       then memmory_base b = NULL \<and> (\<forall>n a. Pci (Pci_iomap 0x500 k n a) \<notin> set new)
       else memmory_base b = card_base ex_card k \<and> Pci (Pci_iomap 0x500 k (rw_off b) (card_base ex_card k)) \<in> set new \<and>
         unat (rw_off b) + 1 = bar_bytes ex_high_env 0x500 k)"
    using probe_bars_32bit [of ex_high_env "0x500" ex_card "0x2000" ex_module zero_dev]
    by (auto simp: ex_module_def zero_dev_def)
  from bars have "\<exists>b. dev_bar d' 0 = Some b \<and> memmory_base b = NULL" "\<exists>b. dev_bar d' 1 = Some b \<and> unat (rw_off b) = 0xFFF"
    by (auto simp: ex_high_env_def bar_bytes_def dest: spec [of _ 0] spec [of _ 1])
  moreover have "bar_bytes ex_high_env 0x500 1 = 0x1000" by (simp add: bar_bytes_def ex_high_env_def)
  ultimately show ?thesis using run by blast
qed

end
