(* ===== verification/Remove_Board.thy ===== *)
theory Remove_Board
  imports Probe_Board
begin

text \<open>
  \<open>pcieuni_setup_interrupt\<close> requests the interrupt of a board, and \<open>pcieuni_remove_exp\<close> takes back what
  \<open>pcieuni_probe_exp\<close> and it have acquired, frees the board and turns the files that are still open
  over to the null device.
\<close>

section \<open>Interrupts and remove\<close>

definition pcieuni_setup_interrupt :: "kenv \<Rightarrow> ptr \<Rightarrow> ('z kst_scheme, c_int) km" where
  "pcieuni_setup_interrupt env pdev =
     kseq (upd_dev pdev (irq_mode_update (\<lambda>_. 1))) (
     kbind (get_dev pdev) (\<lambda>d.
     kbind (kget (\<lambda>s. request_irq_ret env (k_log s) (pci_dev_irq d))) (\<lambda>result.
     kseq (log_call (Pci (Request_irq (pci_dev_irq d) (irq_flag d) pdev))) (
     kseq (kwhen (result \<noteq> 0) (upd_dev pdev (irq_mode_update (\<lambda>_. 0))))
     (kret result)))))"

definition unmap_bar ::
  "ptr \<Rightarrow> ptr \<Rightarrow> (pcieuni_dev \<Rightarrow> pcieuni_bar) \<Rightarrow>
   ((pcieuni_bar \<Rightarrow> pcieuni_bar) \<Rightarrow> pcieuni_dev \<Rightarrow> pcieuni_dev) \<Rightarrow> ('z kst_scheme, unit) km" where
  "unmap_bar dev bp sel upd =
     kbind (get_dev bp) (\<lambda>d.
     kwhen (memmory_base (sel d) \<noteq> NULL) (
       kseq (log_call (Pci (Pci_iounmap dev (memmory_base (sel d)))))
       (upd_dev bp (upd (\<lambda>b. b\<lparr>mem_base := 0, mem_base_end := 0, mem_base_flag := 0, rw_off := 0, memmory_base := NULL\<rparr>)))))"

text \<open>The files that are still open now belong to the null device.\<close>

fun orphan_files :: "ptr \<Rightarrow> pcieuni_file_list list \<Rightarrow> ('z kst_scheme, unit) km" where
  "orphan_files null_p [] = kret ()"
| "orphan_files null_p (f # fs) =
     kseq (kmod (\<lambda>s. s\<lparr>k_priv := (k_priv s)(fl_filp f := null_p)\<rparr>)) (
     kseq (log_call (Mem (Kfree (fl_addr f))))
     (orphan_files null_p fs))"

definition remove_projects :: "ptr \<Rightarrow> ('z kst_scheme, unit) km" where
  "remove_projects bp =
     kbind (get_dev bp) (\<lambda>d.
     kseq (upd_dev bp (prj_info_list_update (\<lambda>_. [])))
     (kfree_each (map prj_addr (prj_info_list d))))"

definition remove_irq :: "ptr \<Rightarrow> ('z kst_scheme, unit) km" where
  "remove_irq bp =
     kbind (get_dev bp) (\<lambda>d.
     if irq_mode d \<noteq> 0 then
       kseq (log_call (Pci (Free_irq (pci_dev_irq d) bp)))
       (kwhen (msi d \<noteq> 0) (log_call (Pci (Pci_disable_msi (pcieuni_pci_dev d)))))
     else kwhen (msi d \<noteq> 0) (log_call (Pci (Pci_disable_msi (pcieuni_pci_dev d)))))"

definition remove_bars :: "ptr \<Rightarrow> ptr \<Rightarrow> ('z kst_scheme, unit) km" where
  "remove_bars dev bp =
     kseq (unmap_bar dev bp bar0 bar0_update) (
     kseq (unmap_bar dev bp bar1 bar1_update) (
     kseq (unmap_bar dev bp bar2 bar2_update) (
     kseq (unmap_bar dev bp bar3 bar3_update) (
     kseq (unmap_bar dev bp bar4 bar4_update)
     (unmap_bar dev bp bar5 bar5_update)))))"

text \<open>The result, and what \<open>brd_num\<close> points to afterwards.\<close>

definition pcieuni_remove_exp :: "ptr \<Rightarrow> ptr \<Rightarrow> string \<Rightarrow> ('z kst_scheme, c_int \<times> c_int) km" where
  "pcieuni_remove_exp dev cdev_p dev_name =
     kbind (kget (\<lambda>s. k_drvdata s dev)) (\<lambda>bp.
     kbind (get_dev bp) (\<lambda>d.
     let tmp_slot_num = slot_num d in
     kseq (remove_projects bp) (
     kseq (remove_irq bp) (
     kseq (mutex_lock bp) (
     kseq (remove_bars dev bp) (
     kseq (log_call (Pci (Pci_release_regions (pcieuni_pci_dev d)))) (
     kbind (get_cdev cdev_p) (\<lambda>c.
     kseq (log_call (Node (Device_destroy (pcieuni_class c) (MKDEV (PCIEUNI_MAJOR c) (PCIEUNI_MINOR c + brd_num d))))) (
     kseq (unregister_gpcieuni_proc tmp_slot_num dev_name) (
     kseq (upd_dev bp (\<lambda>d. d\<lparr>dev_sts := 0, binded := 0\<rparr>)) (
     kseq (upd_cdev cdev_p (\<lambda>c. c\<lparr>pcieuniModuleNum := pcieuniModuleNum c - 1\<rparr>)) (
     kseq (log_call (Pci (Pci_disable_device dev))) (
     kseq (upd_dev bp (dev_file_list_update (\<lambda>_. []))) (
     kseq (orphan_files (pcieuni_dev_m c ! PCIEUNI_NR_DEVS) (dev_file_list d)) (
     kseq (mutex_unlock bp)
     (kret (0, tmp_slot_num)))))))))))))))))"

section \<open>What remove does, part by part\<close>

lemma remove_projects_run:
  assumes "bp \<noteq> NULL" "k_dev s bp = Some d"
  shows "remove_projects bp s =
    Inr ((), put_dev bp (d\<lparr>prj_info_list := []\<rparr>) (rev (map (Mem \<circ> Kfree) (map prj_addr (prj_info_list d)))) s)"
  using assms by (simp add: remove_projects_def km_simps kfree_each_run put_dev_def)

definition irq_off :: "ptr \<Rightarrow> pcieuni_dev \<Rightarrow> klog" where
  "irq_off bp d = (if msi d \<noteq> 0 then [Pci (Pci_disable_msi (pcieuni_pci_dev d))] else []) @
     (if irq_mode d \<noteq> 0 then [Pci (Free_irq (pci_dev_irq d) bp)] else [])"

lemma remove_irq_run:
  assumes "bp \<noteq> NULL" "k_dev s bp = Some d"
  shows "remove_irq bp s = Inr ((), put_dev bp d (irq_off bp d) s)"
  using assms
  by (cases "irq_mode d \<noteq> 0"; cases "msi d \<noteq> 0")
     (simp_all add: remove_irq_def km_simps irq_off_def put_dev_def log_add_def fun_upd_idem)

definition bar_off :: "pcieuni_bar \<Rightarrow> pcieuni_bar" where
  "bar_off b = (if memmory_base b = NULL then b else zero_bar)"

definition unmap_log :: "ptr \<Rightarrow> pcieuni_bar \<Rightarrow> klog" where
  "unmap_log dev b = (if memmory_base b = NULL then [] else [Pci (Pci_iounmap dev (memmory_base b))])"

lemma bar_zeroed:
  "b\<lparr>mem_base := 0, mem_base_end := 0, mem_base_flag := 0, rw_off := 0, memmory_base := NULL\<rparr> = zero_bar"
  by (cases b) (simp add: zero_bar_def)

lemma unmap_bar_run:
  assumes "bp \<noteq> NULL" "k_dev s bp = Some d" "upd (\<lambda>b. b) d = d"
    "\<And>f. upd f d = upd (\<lambda>_. f (sel d)) d"
  shows "unmap_bar dev bp sel upd s = Inr ((), put_dev bp (upd bar_off d) (unmap_log dev (sel d)) s)"
proof (cases "memmory_base (sel d) = NULL")
  case True
  then have "upd bar_off d = d" using assms(3) assms(4) [of bar_off] assms(4) [of "\<lambda>b. b"] by (simp add: bar_off_def)
  with True assms(1,2) show ?thesis by (simp add: unmap_bar_def km_simps unmap_log_def put_dev_same)
next
  case False
  have "upd (\<lambda>b. b\<lparr>mem_base := 0, mem_base_end := 0, mem_base_flag := 0, rw_off := 0, memmory_base := NULL\<rparr>) d = upd bar_off d"
    using False assms(4) [of bar_off]
      assms(4) [of "\<lambda>b. b\<lparr>mem_base := 0, mem_base_end := 0, mem_base_flag := 0, rw_off := 0, memmory_base := NULL\<rparr>"]
    by (simp add: bar_off_def bar_zeroed)
  with False assms(1,2) show ?thesis by (simp add: unmap_bar_def km_simps unmap_log_def put_dev_def log_add_def)
qed

definition bars_off :: "pcieuni_dev \<Rightarrow> pcieuni_dev" where
  "bars_off d = d\<lparr>bar0 := bar_off (bar0 d), bar1 := bar_off (bar1 d), bar2 := bar_off (bar2 d),
     bar3 := bar_off (bar3 d), bar4 := bar_off (bar4 d), bar5 := bar_off (bar5 d)\<rparr>"

definition unmaps_log :: "ptr \<Rightarrow> pcieuni_dev \<Rightarrow> klog" where
  "unmaps_log dev d = unmap_log dev (bar5 d) @ unmap_log dev (bar4 d) @ unmap_log dev (bar3 d) @
     unmap_log dev (bar2 d) @ unmap_log dev (bar1 d) @ unmap_log dev (bar0 d)"

lemma bars_off_steps:
  "bars_off d = bar5_update bar_off (bar4_update bar_off (bar3_update bar_off (bar2_update bar_off
     (bar1_update bar_off (bar0_update bar_off d)))))"
  by (cases d) (simp add: bars_off_def)

lemma remove_bars_run:
  assumes "bp \<noteq> NULL" "k_dev s bp = Some d"
  shows "remove_bars dev bp s = Inr ((), put_dev bp (bars_off d) (unmaps_log dev d) s)"
proof -
  have run: "unmap_bar dev bp bar0 bar0_update u = Inr ((), put_dev bp (bar0_update bar_off e) (unmap_log dev (bar0 e)) u)"
    "unmap_bar dev bp bar1 bar1_update u = Inr ((), put_dev bp (bar1_update bar_off e) (unmap_log dev (bar1 e)) u)"
    "unmap_bar dev bp bar2 bar2_update u = Inr ((), put_dev bp (bar2_update bar_off e) (unmap_log dev (bar2 e)) u)"
    "unmap_bar dev bp bar3 bar3_update u = Inr ((), put_dev bp (bar3_update bar_off e) (unmap_log dev (bar3 e)) u)"
    "unmap_bar dev bp bar4 bar4_update u = Inr ((), put_dev bp (bar4_update bar_off e) (unmap_log dev (bar4 e)) u)"
    "unmap_bar dev bp bar5 bar5_update u = Inr ((), put_dev bp (bar5_update bar_off e) (unmap_log dev (bar5 e)) u)"
    if "k_dev u bp = Some e" for u :: "'a kst_scheme" and e
    by (rule unmap_bar_run [OF assms(1) that]; simp)+
  show ?thesis
    using assms(2) by (simp add: remove_bars_def kseq_Inr run [OF assms(2)] run bars_off_steps unmaps_log_def)
qed

lemma orphan_files_run:
  "orphan_files np fs s = Inr ((), s\<lparr>k_priv := (\<lambda>f. if f \<in> fl_filp ` set fs then np else k_priv s f),
     k_log := rev (map (Mem \<circ> Kfree) (map fl_addr fs)) @ k_log s\<rparr>)"
proof (induction fs arbitrary: s)
  case (Cons f fs)
  have "(\<lambda>g. if g \<in> fl_filp ` set fs then np else ((k_priv s)(fl_filp f := np)) g) =
      (\<lambda>g. if g \<in> fl_filp ` set (f # fs) then np else k_priv s g)" by auto
  with Cons show ?case by (simp add: km_simps log_add_def del: image_insert cong: if_cong)
qed (simp add: km_simps)


section \<open>The whole of remove\<close>

definition removed_dev :: "pcieuni_dev \<Rightarrow> pcieuni_dev" where
  "removed_dev d = (bars_off (d\<lparr>prj_info_list := []\<rparr>))\<lparr>dev_sts := 0, binded := 0, dev_file_list := []\<rparr>"

definition remove_log :: "ptr \<Rightarrow> ptr \<Rightarrow> pcieuni_cdev \<Rightarrow> string \<Rightarrow> pcieuni_dev \<Rightarrow> klog" where
  "remove_log dev bp c dn d =
     Sync (Mutex_unlock bp) # rev (map (Mem \<circ> Kfree) (map fl_addr (dev_file_list d))) @
     [Pci (Pci_disable_device dev), Node (Proc_remove (board_name dn (slot_num d))),
      Node (Device_destroy (pcieuni_class c) (MKDEV (PCIEUNI_MAJOR c) (PCIEUNI_MINOR c + brd_num d))),
      Pci (Pci_release_regions (pcieuni_pci_dev d))] @
     unmaps_log dev d @ Sync (Mutex_lock bp) # irq_off bp d @ rev (map (Mem \<circ> Kfree) (map prj_addr (prj_info_list d)))"

definition orphaned :: "ptr \<Rightarrow> pcieuni_dev \<Rightarrow> (ptr \<Rightarrow> ptr) \<Rightarrow> ptr \<Rightarrow> ptr" where
  "orphaned np d priv = (\<lambda>f. if f \<in> fl_filp ` set (dev_file_list d) then np else priv f)"

lemma remove_run:
  assumes "k_drvdata s dev = bp" "bp \<noteq> NULL" "k_dev s bp = Some d" "\<not> dev_mut d" "cp \<noteq> NULL" "k_cdev s cp = Some c"
    "length (board_name dn (slot_num d)) < 32"
  shows "pcieuni_remove_exp dev cp dn s = Inr ((0, slot_num d),
    (put_dev bp (removed_dev d) (remove_log dev bp c dn d) s)
    \<lparr>k_cdev := (k_cdev s)(cp \<mapsto> c\<lparr>pcieuniModuleNum := pcieuniModuleNum c - 1\<rparr>),
     k_priv := orphaned (pcieuni_dev_m c ! 15) d (k_priv s)\<rparr>)"
proof -
  define l1 where "l1 = rev (map (Mem \<circ> Kfree) (map prj_addr (prj_info_list d)))"
  let ?d1 = "d\<lparr>prj_info_list := []\<rparr>"
  let ?s1 = "put_dev bp ?d1 l1 s"
  let ?l2 = "Sync (Mutex_lock bp) # irq_off bp d @ l1"
  let ?s3 = "put_dev bp (?d1\<lparr>dev_mut := True\<rparr>) ?l2 s"
  let ?d4 = "bars_off (?d1\<lparr>dev_mut := True\<rparr>)"
  let ?s4 = "put_dev bp ?d4 (unmaps_log dev d @ ?l2) s"
  have p: "remove_projects bp s = Inr ((), ?s1)" using remove_projects_run [OF assms(2,3)] by (simp add: l1_def)
  have i: "remove_irq bp ?s1 = Inr ((), put_dev bp ?d1 (irq_off bp d @ l1) s)"
    using remove_irq_run [OF assms(2), of ?s1 ?d1] by (simp add: irq_off_def)
  have m: "mutex_lock bp (put_dev bp ?d1 (irq_off bp d @ l1) s) = Inr ((), ?s3)"
    using assms(2,4) by (simp add: mutex_lock_app) (simp add: put_dev_def log_add_def)
  have "unmaps_log dev (?d1\<lparr>dev_mut := True\<rparr>) = unmaps_log dev d" by (simp add: unmaps_log_def)
  then have b: "remove_bars dev bp ?s3 = Inr ((), ?s4)" using remove_bars_run [OF assms(2), of ?s3] by simp
  have d: "?d4\<lparr>dev_sts := 0, binded := 0, dev_file_list := [], dev_mut := False\<rparr> = removed_dev d"
    using assms(4) by (cases d) (simp add: removed_dev_def bars_off_def)
  show ?thesis
    unfolding pcieuni_remove_exp_def Let_def
    using assms
    by (simp add: km_simps p i m b unregister_gpcieuni_proc_def sprintf_to_def orphan_files_run d del: put_dev_put_dev)
       (cases s; simp add: put_dev_def log_add_def remove_log_def orphaned_def d l1_def cong: if_cong)
qed


text \<open>What is held after remove.\<close>

definition irq_held :: "ptr \<Rightarrow> pcieuni_dev \<Rightarrow> bus_resource multiset" where
  "irq_held bp d = (if irq_mode d \<noteq> 0 then {#RIrq (pci_dev_irq d) bp#} else {#}) +
     (if msi d \<noteq> 0 then {#RMsi (pcieuni_pci_dev d)#} else {#})"

lemma held_unmap_log [simp]: "held env (unmap_log dev b @ l) = held env l"
  by (simp add: unmap_log_def)

lemma bus_held_unmap_log [simp]: "bus_held env (unmap_log dev b @ l) = bus_held env l - bar_res dev b"
  by (simp add: unmap_log_def bar_res_def)

lemma bus_held_kfrees [simp]: "bus_held env (rev (map (Mem \<circ> Kfree) ps) @ l) = bus_held env l"
proof (induction ps arbitrary: l)
  case (Cons p ps)
  from Cons [of "Mem (Kfree p) # l"] show ?case by simp
qed simp

lemma held_irq_off [simp]: "held env (irq_off bp d @ l) = held env l"
  by (simp add: irq_off_def)

lemma bus_held_irq_off [simp]: "bus_held env (irq_off bp d @ l) = bus_held env l - irq_held bp d"
  by (simp add: irq_off_def irq_held_def)

lemma held_remove_log:
  "held env (remove_log dev bp c dn d @ l) =
     held env l - mset (map RMem (map prj_addr (prj_info_list d))) - mset (map RMem (map fl_addr (dev_file_list d)))"
  by (simp add: remove_log_def unmaps_log_def held_kfrees del: map_map mset_map)

lemma bus_held_remove_log:
  "bus_held env (remove_log dev bp c dn d @ l) = bus_held env l -
     ({#REnabled dev, RRegions (pcieuni_pci_dev d), RNode (pcieuni_class c) (MKDEV (PCIEUNI_MAJOR c) (PCIEUNI_MINOR c + brd_num d)),
       RProc (board_name dn (slot_num d))#} + bars_res dev d + irq_held bp d)"
  by (simp add: remove_log_def unmaps_log_def bars_res_def ac_simps add_mset_commute del: map_map)

lemma setup_interrupt_run:
  assumes "bp \<noteq> NULL" "k_dev s bp = Some d"
  shows "pcieuni_setup_interrupt env bp s = Inr (request_irq_ret env (k_log s) (pci_dev_irq d),
    put_dev bp (d\<lparr>irq_mode := (if request_irq_ret env (k_log s) (pci_dev_irq d) = 0 then 1 else 0)\<rparr>)
      [Pci (Request_irq (pci_dev_irq d) (irq_flag d) bp)] s)"
  using assms by (simp add: pcieuni_setup_interrupt_def km_simps put_dev_def log_add_def)


text \<open>The interrupt of a board that has been probed, whether it could be had or not.\<close>

definition irq_asked :: "c_int \<Rightarrow> pcieuni_dev \<Rightarrow> pcieuni_dev" where
  "irq_asked r d = d\<lparr>irq_mode := (if r = 0 then 1 else 0)\<rparr>"

lemma irq_asked_fields [simp]:
  "slot_num (irq_asked r d) = slot_num d" "dev_mut (irq_asked r d) = dev_mut d" "prj_info_list (irq_asked r d) = prj_info_list d"
  "dev_file_list (irq_asked r d) = dev_file_list d" "pcieuni_pci_dev (irq_asked r d) = pcieuni_pci_dev d"
  "brd_num (irq_asked r d) = brd_num d" "bars_res dev (irq_asked r d) = bars_res dev d"
  "irq_mode (irq_asked r d) = (if r = 0 then 1 else 0)" "msi (irq_asked r d) = msi d" "pci_dev_irq (irq_asked r d) = pci_dev_irq d"
  by (simp_all add: irq_asked_def bars_res_def)

lemma removed_fields [simp]:
  "binded (removed_dev d) = 0" "dev_sts (removed_dev d) = 0" "prj_info_list (removed_dev d) = []"
  "dev_file_list (removed_dev d) = []" "dev_mut (removed_dev d) = dev_mut d" "dev_file_ref (removed_dev d) = dev_file_ref d"
  "brd_num (removed_dev d) = brd_num d"
  by (simp_all add: removed_dev_def bars_off_def)

lemma removed_unmapped: "dev_base (removed_dev d) k = NULL"
  by (simp add: dev_base_def dev_bar_def removed_dev_def bars_off_def bar_off_def zero_bar_def)

text \<open>Probe, interrupt and remove in a row.\<close>

lemma probe_remove_run:
  assumes "slot_free cp c m d s" "probe_ready env dev cd offs dn" "\<not> dev_mut d" "dev_file_list d = []" "brd_num d = of_nat m"
  shows "\<exists>t r t' u c' d''. pcieuni_probe_exp env dev cp dn n0 s = Inr ((0, of_nat m), t) \<and>
    pcieuni_setup_interrupt env (pcieuni_dev_m c ! m) t = Inr (r, t') \<and>
    pcieuni_remove_exp dev cp dn t' = Inr ((0, card_slot cd), u) \<and>
    held env (k_log u) = held env (k_log s) \<and> bus_held env (k_log u) = bus_held env (k_log s) \<and>
    k_dev u = (k_dev s)(pcieuni_dev_m c ! m \<mapsto> d'') \<and> k_priv u = k_priv s \<and>
    slot_free cp c' m d'' u \<and> (\<forall>k. dev_base d'' k = NULL) \<and> (\<exists>entry. c' = c\<lparr>pcieuni_procdir := entry\<rparr>) \<and>
    k_cdev u = (k_cdev s)(cp \<mapsto> c')"
proof -
  define bp where "bp = pcieuni_dev_m c ! m"
  note f = slot_freeD [OF assms(1)]
  from probe_run [OF assms(1,2), of n0] obtain d' t where
    probe: "pcieuni_probe_exp env dev cp dn n0 s = Inr ((0, of_nat m), t)" and left: "probe_left env dev cd offs dn cp c m d d' s t" by blast
  from left obtain entry x b ps where
    l: "k_dev t = (k_dev s)(bp \<mapsto> d')" "k_drvdata t = (k_drvdata s)(dev := bp)" "k_cdev t = (k_cdev s)(cp \<mapsto> cdev_bound entry c)"
      "k_priv t = k_priv s" and d': "d' = probed_dev env dev cd dn x b ps d"
    and h: "held env (k_log t) = held env (k_log s) + mset (map (RMem \<circ> prj_addr) (prj_info_list d'))"
    and r: "bus_held env (k_log t) = {#REnabled dev, RRegions dev, RNode (pcieuni_class c) (node_no c m), RProc (board_name dn (card_slot cd))#} +
       bars_res dev d' + irq_res dev cd + bus_held env (k_log s)"
    unfolding probe_left_def bp_def by auto
  define q where "q = request_irq_ret env (k_log t) (pci_dev_irq d')"
  define t' where "t' = put_dev bp (irq_asked q d') [Pci (Request_irq (pci_dev_irq d') (irq_flag d') bp)] t"
  have ask: "pcieuni_setup_interrupt env bp t = Inr (q, t')"
    using setup_interrupt_run [of bp t d' env] f(5) l(1) by (simp add: bp_def q_def t'_def irq_asked_def)
  let ?c = "cdev_bound entry c"
  let ?u = "(put_dev bp (removed_dev (irq_asked q d')) (remove_log dev bp ?c dn (irq_asked q d')) t')
    \<lparr>k_cdev := (k_cdev t')(cp \<mapsto> ?c\<lparr>pcieuniModuleNum := pcieuniModuleNum ?c - 1\<rparr>),
     k_priv := orphaned (pcieuni_dev_m ?c ! 15) (irq_asked q d') (k_priv t')\<rparr>"
  have dn: "length (board_name dn (slot_num (irq_asked q d'))) < 32"
    using assms(2) card_slot_range by (simp add: d' probe_ready_def board_name_length)
  have "pcieuni_remove_exp dev cp dn t' = Inr ((0, slot_num (irq_asked q d')), ?u)"
    using f(1,5) l assms(3) dn by (intro remove_run) (simp_all add: t'_def bp_def d')
  then have remove: "pcieuni_remove_exp dev cp dn t' = Inr ((0, card_slot cd), ?u)" by (simp add: d')
  have "held env (k_log ?u) = held env (k_log s)"
    using h assms(4) by (simp add: held_remove_log t'_def d' multiset.map_comp)
  moreover have "bus_held env (k_log ?u) = bus_held env (k_log s)"
    using r by (simp add: bus_held_remove_log t'_def d' assms(5) irq_held_def irq_res_def node_no_def cdev_bound_def q_def)
  moreover have "slot_free cp (?c\<lparr>pcieuniModuleNum := pcieuniModuleNum ?c - 1\<rparr>) m (removed_dev (irq_asked q d')) ?u"
    using f l by (auto simp: slot_free_def t'_def cdev_bound_def bp_def)
  moreover have "k_priv ?u = k_priv s" "k_dev ?u = (k_dev s)(bp \<mapsto> removed_dev (irq_asked q d'))"
    using l assms(4) by (simp_all add: t'_def orphaned_def d')
  moreover have "?c\<lparr>pcieuniModuleNum := pcieuniModuleNum ?c - 1\<rparr> = c\<lparr>pcieuni_procdir := entry\<rparr>"
    by (cases c) (simp add: cdev_bound_def)
  moreover have "k_cdev ?u = (k_cdev s)(cp \<mapsto> ?c\<lparr>pcieuniModuleNum := pcieuniModuleNum ?c - 1\<rparr>)" using l(3) by (simp add: t'_def)
  ultimately show ?thesis using probe ask remove removed_unmapped unfolding bp_def by blast
qed

text \<open>
  C4: probing a device, requesting its interrupt and removing it again. All three return, whether
  the interrupt could be had or not; afterwards the driver holds the memory, the bus resources, the
  interrupts and the nodes it held before and nothing else has changed hands. The board is free
  again, with no mapping and no project, so that the next device can be bound to it.
\<close>

theorem probe_remove_roundtrip:
  assumes "slot_free cp c m d s" "probe_ready env dev cd offs dn" "\<not> dev_mut d" "dev_file_list d = []" "brd_num d = of_nat m"
  shows "\<exists>t r t' u c' d''. pcieuni_probe_exp env dev cp dn n0 s = Inr ((0, of_nat m), t) \<and>
    pcieuni_setup_interrupt env (pcieuni_dev_m c ! m) t = Inr (r, t') \<and>
    pcieuni_remove_exp dev cp dn t' = Inr ((0, card_slot cd), u) \<and>
    held env (k_log u) = held env (k_log s) \<and> bus_held env (k_log u) = bus_held env (k_log s) \<and>
    k_dev u = (k_dev s)(pcieuni_dev_m c ! m \<mapsto> d'') \<and> k_priv u = k_priv s \<and>
    slot_free cp c' m d'' u \<and> (\<forall>k. dev_base d'' k = NULL) \<and> pcieuniModuleNum c' = pcieuniModuleNum c"
proof -
  from probe_remove_run [OF assms, of n0] show ?thesis by (elim exE conjE) (intro exI conjI, assumption+, simp)
qed

theorem probe_remove_roundtrip_witness:
  "\<exists>t r t' u. pcieuni_probe_exp ex_card_env 0x500 0x300 ''pcieuni'' 0 ex_module = Inr ((0, 0), t) \<and>
     pcieuni_setup_interrupt ex_card_env 0x2000 t = Inr (r, t') \<and>
     pcieuni_remove_exp 0x500 0x300 ''pcieuni'' t' = Inr ((0, 5), u) \<and>
     held ex_card_env (k_log u) = {#} \<and> bus_held ex_card_env (k_log u) = {#}"
proof -
  have "pcieuni_dev_m ex_table ! 0 = 0x2000" "card_slot ex_card = 5" "k_log ex_module = []"
    by (simp_all add: ex_table_def ex_card_def card_slot_def ex_module_def empty_kst_def)
  with probe_remove_roundtrip [OF ex_slot_free ex_probe_ready, of 0] show ?thesis by (fastforce simp: zero_dev_def)
qed

end
