(* ===== verification/Spec2Isabelle.thy ===== *)
theory Spec2Isabelle
  imports Rw_No_Struct Buffer_Threads Ioctl_Ops Remove_Board
begin

text \<open>
  Verification of gpcieuni, the generic base part of the ChimeraTK PCI Express driver for Linux. The
  base driver exports the functions a device driver is put together from; the development models
  all of them that are not pure logging, in the order of the sources under \<open>src/\<close>.

  \<^bold>\<open>The program.\<close> A device driver calls \<open>pcieuni_init_module_exp\<close> once. It makes a module structure
  (\<open>pcieuni_cdev\<close>) with a table of fifteen boards (\<open>pcieuni_dev\<close>) and a null device, the class and the
  device numbers. For each device the kernel finds, \<open>pcieuni_probe_exp\<close> takes the first free board,
  enables the device, maps its six BARs, reads the board header and the project headers of the
  firmware (\<open>pcieuni_get_brdinfo\<close>, \<open>pcieuni_get_prjinfo\<close>) and makes the device node and the proc
  entry; \<open>pcieuni_setup_interrupt\<close> requests the interrupt. User programs open the node
  (\<open>pcieuni_open_exp\<close>), read and write registers through it (\<open>pcieuni_read_no_struct_exp\<close>,
  \<open>pcieuni_write_no_struct_exp\<close>; the file position names BAR and offset), make ioctls and close it
  (\<open>pcieuni_release_exp\<close>). A driver with DMA keeps a ring of DMA buffers (\<open>pcieuni_buffer.c\<close>) from which
  threads take buffers and to which they return them. \<open>pcieuni_remove_exp\<close> takes back what probe has
  acquired and turns files that are still open over to the null device, and
  \<open>pcieuni_cleanup_module_exp\<close> frees the table.

  \<^bold>\<open>How it is modelled.\<close> Theory \<open>Prelude\<close> has the machine integers at the width of the C types, the
  error numbers and a state-and-fault monad: an operation delivers a result and a new state, or a
  fault (null dereference, deadlock, a loop that never ends, overflow of a character array, a read
  past the end of a string).
  \<open>Kernel\<close> is the boundary to Linux: what a kernel service answers is a field of the record \<open>kenv\<close>,
  a parameter of every operation, and may depend on all that happened before; every call is
  recorded in a log. What the driver relies on is a named hypothesis on \<open>kenv\<close>
  (\<open>stable_regs\<close>, \<open>memory_plenty\<close>, \<open>alloc_fresh\<close>, \<open>alloc_sound\<close>, \<open>card_there\<close>, \<open>probe_ready\<close>, \<open>init_ready\<close>;
  \<open>uninterruptible\<close> for the waits of the buffer list), and each theorem that uses one has a witness with a concrete kernel. \<open>Kernel_Resources\<close> reads from a
  log which memory, pages and DMA mappings are held, as a multiset. \<open>Device_Data\<close> has the structures
  of \<open>pcieuni_ufn.h\<close> as records, the driver's memory (\<open>kst\<close>) as a store of them by address with the log,
  and the accessors of \<open>pcieuni_ufn.c\<close>. The operations, each one definition with the name it has in the
  source:

  \<^item> \<open>Rw_No_Struct\<close>: \<open>pcieuni_rw_no_struct_exp.c\<close>, the check of a request, the word loops and both
    handlers. The loops are partial functions; locale \<open>word_loop\<close> states when such a loop returns and
    what it has done, locale \<open>rw_handler\<close> what a handler does around it. Shown: what a read delivers
    and a write stores; that every request of a count the virtual file system passes on accesses only
    registers of the BAR, from the first to the last byte, one byte more than the computed size of the
    BAR; that reading back gives what was written; partial transfers and errors.
  \<^item> \<open>Buffer_List\<close>, \<open>Buffer_Resources\<close>, \<open>Buffer_Use\<close>, \<open>Buffer_Shutdown\<close>: \<open>pcieuni_buffer.c\<close>. Waiting is a
    parameter, what the wait queue answers. Shown: create and destroy balance, the list refines an
    abstract ring (locale \<open>buffer_ring\<close>), round robin, time-outs, the end of \<open>clear\<close> and the cases in
    which it has none.
  \<^item> \<open>Buffer_Threads\<close>: the same operations cut at their waits into parts (\<open>gf_enter\<close>, \<open>gf_woken\<close>,
    \<open>clear_begin\<close>, \<open>clear_remove\<close>), and the relation \<open>bl_step\<close> that interleaves the parts of any number of
    threads. The relation is not code: it lets a thread give back only a buffer it has taken, append
    only an available buffer that is not in the list, and clear a list only once, and a part that
    faults has no step. Shown: that running the parts of \<open>get_free\<close> one after the other is \<open>get_free\<close>, and
    by rule induction over \<open>bl_reach\<close> that a buffer has one user at a time and is not destroyed under
    him.
  \<^item> \<open>Format_Names\<close>, \<open>Board_Info\<close>: number formats, board and project headers, the text and the name of
    the proc entry, \<open>pcieuni_register_write32\<close>. Shown: what the scan finds, when it never ends, and that
    the text of the proc entry determines what the driver knows of a board.
  \<^item> \<open>File_Ops\<close>: open and release; locale \<open>file_table\<close> is the contract of a table of open files, and every
    sequence of opens and closes is counted correctly.
  \<^item> \<open>Ioctl_Ops\<close>: \<open>pcieuni_ioctl_exp\<close> with its error paths and the mutex it leaves locked.
  \<^item> \<open>Module_Init\<close>: initialisation and clean-up of the module; sixteen different boards, balance of the
    memory, what is left when memory runs out.
  \<^item> \<open>Probe_Board\<close>, \<open>Remove_Board\<close>: probe, the interrupt and remove. A device is described by a record
    \<open>pci_card\<close>; the resources of the bus, the interrupts and the nodes a log leaves are a multiset
    (\<open>bus_held\<close>). Shown: what a bound board knows of its device, the failures of probe, the lengths of
    the BARs and those whose addresses do not fit 32 bits, and that remove gives back exactly what was acquired.

  This theory holds what spans components: initialisation followed by any number of probes (locale
  \<open>slot_table\<close>, the contract of a table that binds devices in order, interpreted for the boards of the
  module), the life of the driver from loading to unloading, a read through probe and open, and the fate of open files when their board is removed.

  \<^bold>\<open>Loops.\<close> Loops of the source whose end depends on registers, on user memory or on other threads
  are \<open>partial_function (option)\<close>, and not returning is the fault \<open>Diverges\<close>; no fuel is used. Where the
  code returns, this is proved; where it does not, the theorems \<open>get_prjinfo_never_returns\<close>,
  \<open>clear_never_gives_up\<close>, \<open>read_4GiB_diverges\<close> say so. All other loops are structural.

  \<^bold>\<open>Not modelled.\<close> \<open>gpcieuni_drv.c.in\<close>, whose two functions only print a line; the messages of \<open>printk\<close>
  everywhere; \<open>pcieuni_proc_open\<close>, one call of the kernel's \<open>single_open\<close>; the ioctl structures of
  \<open>pcieuni_io.h\<close> that no function of the base driver uses (DMA and time structures); the function
  declarations of \<open>pcieuni_ufn.h\<close> without a body; the embedded \<open>struct cdev\<close> and \<open>struct mutex\<close>, of which
  only the state of the lock is kept; kernels without message signalled interrupts; builds with
  \<open>PCIEUNI_TEST_BUFFER_ALLOCATION_FAILURE\<close>. The file handlers are modelled as they run under the mutex of the board,
  one after the other; interleaving is modelled for the buffer list, where the code relies on it.
\<close>

section \<open>From initialisation to the last free board\<close>

text \<open>
  A table of which the first \<open>n\<close> boards are bound and the others are free.
\<close>

definition bound_upto :: "ptr \<Rightarrow> nat \<Rightarrow> kst \<Rightarrow> bool" where
  "bound_upto cp n s \<longleftrightarrow> (\<exists>c. cp \<noteq> NULL \<and> k_cdev s cp = Some c \<and> length (pcieuni_dev_m c) = 16 \<and> distinct (pcieuni_dev_m c) \<and>
     NULL \<notin> set (pcieuni_dev_m c) \<and>
     (\<forall>j < n. \<exists>e. k_dev s (pcieuni_dev_m c ! j) = Some e \<and> binded e \<noteq> 0) \<and>
     (\<forall>j < 15. n \<le> j \<longrightarrow> (\<exists>d. k_dev s (pcieuni_dev_m c ! j) = Some d \<and> binded d = 0 \<and> dev_sts d = 0 \<and> prj_info_list d = [])))"

lemma bound_upto_slot:
  assumes "bound_upto cp n s" "n < 15"
  shows "\<exists>c d. slot_free cp c n d s"
proof -
  from assms(1) obtain c where c: "cp \<noteq> NULL" "k_cdev s cp = Some c" "length (pcieuni_dev_m c) = 16" "NULL \<notin> set (pcieuni_dev_m c)"
    "\<forall>j < n. \<exists>e. k_dev s (pcieuni_dev_m c ! j) = Some e \<and> binded e \<noteq> 0"
    "\<forall>j < 15. n \<le> j \<longrightarrow> (\<exists>d. k_dev s (pcieuni_dev_m c ! j) = Some d \<and> binded d = 0 \<and> dev_sts d = 0 \<and> prj_info_list d = [])"
    unfolding bound_upto_def by blast
  from c(6) assms(2) obtain d where "k_dev s (pcieuni_dev_m c ! n) = Some d" "binded d = 0" "dev_sts d = 0" "prj_info_list d = []" by blast
  moreover have "pcieuni_dev_m c ! j \<noteq> NULL" if "j < 16" for j using c(3,4) that by (auto simp: in_set_conv_nth)
  ultimately have "slot_free cp c n d s" unfolding slot_free_def using c assms(2) by simp
  then show ?thesis by blast
qed

lemma bound_upto_probe:
  assumes "bound_upto cp n s" "n < 15" "probe_ready env dev cd offs dn"
  shows "\<exists>t. pcieuni_probe_exp env dev cp dn n0 s = Inr ((0, of_nat n), t) \<and> bound_upto cp (Suc n) t"
proof -
  from bound_upto_slot [OF assms(1,2)] obtain c d where free: "slot_free cp c n d s" by blast
  from probe_run [OF free assms(3), of n0] obtain d' t where
    run: "pcieuni_probe_exp env dev cp dn n0 s = Inr ((0, of_nat n), t)" and left: "probe_left env dev cd offs dn cp c n d d' s t" by blast
  from left obtain entry where l: "k_dev t = (k_dev s)(pcieuni_dev_m c ! n \<mapsto> d')" "k_cdev t = (k_cdev s)(cp \<mapsto> cdev_bound entry c)"
    "binded d' = 1" unfolding probe_left_def by auto
  have c: "k_cdev s cp = Some c" by (rule slot_freeD [OF free])
  note inv = assms(1) [unfolded bound_upto_def]
  from inv c have len: "length (pcieuni_dev_m c) = 16" "distinct (pcieuni_dev_m c)" by auto
  then have "pcieuni_dev_m c ! j = pcieuni_dev_m c ! n \<longleftrightarrow> j = n" if "j < 15" for j
    using assms(2) that nth_eq_iff_index_eq [of "pcieuni_dev_m c" j n] by simp
  then have "bound_upto cp (Suc n) t"
    unfolding bound_upto_def using inv c l assms(2) by (auto simp: cdev_bound_def less_Suc_eq)
  with run show ?thesis by blast
qed

lemma bound_upto_full:
  assumes "bound_upto cp 15 s"
  shows "pcieuni_probe_exp env dev cp dn n0 s = Inr ((- 1, n0), s)"
proof -
  from assms obtain c where c: "cp \<noteq> NULL" "k_cdev s cp = Some c" "length (pcieuni_dev_m c) = 16" "NULL \<notin> set (pcieuni_dev_m c)"
    "\<forall>j < 15. \<exists>e. k_dev s (pcieuni_dev_m c ! j) = Some e \<and> binded e \<noteq> 0" unfolding bound_upto_def by blast
  have "pcieuni_dev_m c ! j \<noteq> NULL" if "j < 15" for j using c(3,4) that by (auto simp: in_set_conv_nth)
  with c have "find_slot cp [0..<15] s = Inr (None, s)" by (intro find_slot_full) auto
  then show ?thesis by (simp add: pcieuni_probe_exp_def km_simps del: upt_Suc)
qed

lemma init_bound_upto:
  assumes "module_up env cp c s t"
  shows "bound_upto cp 0 t"
  unfolding bound_upto_def using module_upD [OF assms]
  by (intro exI [of _ c]) (auto simp: fresh_board_def zero_dev_def)

text \<open>
  The contract of a table that binds devices to its places in order: it is all a sequence of
  devices that are plugged in one after the other depends on.
\<close>

fun plug_each :: "('d \<Rightarrow> ('s, 'r) km) \<Rightarrow> 'd list \<Rightarrow> ('s, 'r list) km" where
  "plug_each plug [] = kret []"
| "plug_each plug (dev # devs) =
     kbind (plug dev) (\<lambda>r. kbind (plug_each plug devs) (\<lambda>rs. kret (r # rs)))"

locale slot_table =
  fixes bound :: "nat \<Rightarrow> 's \<Rightarrow> bool"
    and places :: nat
    and ready :: "'d \<Rightarrow> bool"
    and plug :: "'d \<Rightarrow> ('s, c_int \<times> c_int) km"
  assumes plug_next: "bound n s \<Longrightarrow> n < places \<Longrightarrow> ready dev \<Longrightarrow>
      \<exists>t. plug dev s = Inr ((0, of_nat n), t) \<and> bound (Suc n) t"
    and plug_full: "bound places s \<Longrightarrow> \<exists>n. plug dev s = Inr ((- 1, n), s)"
begin

lemma each_run:
  "bound n s \<Longrightarrow> n + length devs \<le> places \<Longrightarrow> list_all ready devs \<Longrightarrow>
    \<exists>t. plug_each plug devs s = Inr (map (\<lambda>i. (0, of_nat i)) [n..<n + length devs], t) \<and> bound (n + length devs) t"
proof (induction devs arbitrary: n s)
  case Nil
  then show ?case by (simp add: km_simps)
next
  case (Cons dev devs)
  from plug_next [OF Cons.prems(1), of dev] Cons.prems(2,3) obtain u where
    u: "plug dev s = Inr ((0, of_nat n), u)" "bound (Suc n) u" by auto
  from Cons.IH [OF u(2)] Cons.prems obtain t where
    "plug_each plug devs u = Inr (map (\<lambda>i. (0, of_nat i)) [Suc n..<Suc n + length devs], t)" "bound (Suc n + length devs) t" by auto
  moreover have "[n..<n + length (dev # devs)] = n # [Suc n..<Suc n + length devs]" by (subst upt_conv_Cons) simp_all
  ultimately show ?case using u(1) by (intro exI [of _ t]) (simp add: km_simps del: upt_Suc)
qed

lemma each_then_full:
  assumes "bound 0 s" "length devs \<le> places" "list_all ready devs"
  shows "\<exists>t. plug_each plug devs s = Inr (map (\<lambda>i. (0, of_nat i)) [0..<length devs], t) \<and>
    (length devs = places \<longrightarrow> (\<forall>dev. \<exists>n. plug dev t = Inr ((- 1, n), t)))"
  using each_run [OF assms(1), of devs] assms(2,3) plug_full by auto

end

interpretation st: slot_table "bound_upto cp" 15 "\<lambda>dev. \<exists>cd offs. probe_ready env dev cd offs dn"
    "\<lambda>dev. pcieuni_probe_exp env dev cp dn n0" for cp env dn n0
  by unfold_locales (use bound_upto_probe bound_upto_full in blast)+

text \<open>
  C10: after initialisation the module binds up to fifteen devices, plugged in one after the other, to
  the boards 0, 1, 2 and so on, each with the result 0; the sixteenth is refused with -1 and changes
  nothing. The null device is never bound to a device.
\<close>

theorem module_binds_fifteen:
  assumes "alloc_fresh env" "init_ready env bv ov s" "length devs \<le> 15"
    "list_all (\<lambda>dev. \<exists>cd offs. probe_ready env dev cd offs dn) devs"
  shows "\<exists>cp t u. pcieuni_init_module_exp env pp bv ov s = Inr ((0, cp), t) \<and>
    plug_each (\<lambda>dev. pcieuni_probe_exp env dev cp dn n0) devs t = Inr (map (\<lambda>i. (0, of_nat i)) [0..<length devs], u) \<and>
    (length devs = 15 \<longrightarrow> (\<forall>dev. \<exists>n. pcieuni_probe_exp env dev cp dn n0 u = Inr ((- 1, n), u)))"
proof -
  from init_up [OF assms(1,2), of pp] obtain cp c t where
    init: "pcieuni_init_module_exp env pp bv ov s = Inr ((0, cp), t)" and up: "module_up env cp c s t" by blast
  from st.each_then_full [OF init_bound_upto [OF up] assms(3,4)] init show ?thesis by blast
qed

text \<open>A kernel that always has memory and shows the card of the examples at every address.\<close>

definition ex_full_kernel :: kenv where
  "ex_full_kernel = ex_card_env\<lparr>kzalloc_ret := (\<lambda>l. if length l < 2 ^ 63 then first_free l else 0x1000)\<rparr>"

lemma ex_full_kernel_fresh: "alloc_fresh ex_full_kernel"
proof -
  have "dma_mapping_error_ret ex_full_kernel = dma_mapping_error_ret alloc_kernel"
    by (simp add: ex_full_kernel_def ex_card_env_def ex_board_def alloc_kernel_def)
  then have "held ex_full_kernel l = held alloc_kernel l" for l by (rule held_dma_cong)
  moreover have "kzalloc_ret ex_full_kernel l = kzalloc_ret alloc_kernel l" if "length l < 2 ^ 63" for l
    using that by (simp add: ex_full_kernel_def alloc_kernel_def)
  ultimately show ?thesis using alloc_kernel_fresh by (simp add: alloc_fresh_def)
qed

lemma ex_full_kernel_ready:
  "init_ready ex_full_kernel ''1.04'' ''0.11'' empty_kst" "probe_ready ex_full_kernel dev ex_card [0x100, 0x200] ''pcieuni''"
proof -
  show "init_ready ex_full_kernel ''1.04'' ''0.11'' empty_kst"
    by (simp add: init_ready_def ex_full_kernel_def ex_card_env_def ex_board_def quiet_kernel_def empty_kst_def)
  have "kzalloc_ret ex_full_kernel l \<noteq> NULL" for l
    using ex_full_kernel_fresh by (cases "length l < 2 ^ 63") (simp_all add: alloc_fresh_def ex_full_kernel_def)
  moreover have "card_at ex_full_kernel dev ex_card = card_at ex_card_env 0x500 ex_card"
    by (intro ext) (simp add: card_at_def bar_start_def ex_full_kernel_def ex_card_env_def)
  moreover have "card_there ex_full_kernel dev ex_card"
    by (simp add: card_there_def ex_full_kernel_def ex_card_env_def ex_card_def ex_board_def quiet_kernel_def stable_regs_def)
  moreover have "proc_create_ret ex_full_kernel l \<noteq> NULL" for l
    by (simp add: ex_full_kernel_def ex_card_env_def ex_board_def quiet_kernel_def)
  ultimately show "probe_ready ex_full_kernel dev ex_card [0x100, 0x200] ''pcieuni''"
    using ex_probe_ready by (simp add: probe_ready_def memory_plenty_def)
qed

theorem module_binds_fifteen_witness:
  "\<exists>cp t u. pcieuni_init_module_exp ex_full_kernel 0 ''1.04'' ''0.11'' empty_kst = Inr ((0, cp), t) \<and>
    plug_each (\<lambda>dev. pcieuni_probe_exp ex_full_kernel dev cp ''pcieuni'' 0) [0x500, 0x600] t = Inr ([(0, 0), (0, 1)], u)"
proof -
  have "list_all (\<lambda>dev. \<exists>cd offs. probe_ready ex_full_kernel dev cd offs ''pcieuni'') [0x500, 0x600]"
    using ex_full_kernel_ready(2) by (auto simp: list_all_iff)
  from module_binds_fifteen [OF ex_full_kernel_fresh ex_full_kernel_ready(1) _ this, of 0 0] show ?thesis
    by (auto simp: upt_conv_Cons)
qed

section \<open>The life of the driver\<close>

lemma module_up_slot_free:
  assumes "module_up env cp c s t"
  shows "slot_free cp c 0 (fresh_board cp (PCIEUNI_MAJOR c) 0) t"
proof -
  note up = module_upD [OF assms]
  have "pcieuni_dev_m c ! 0 \<noteq> NULL" using up(5,7) by (metis nth_mem zero_less_numeral)
  with up show ?thesis by (simp add: slot_free_def fresh_board_def zero_dev_def)
qed

lemma held_cleanup:
  "held env (Mem (Kfree cp) # rev (map (Mem \<circ> Kfree) ps) @ [Node (Class_destroy cl), Node (Unregister_chrdev_region n k)] @ l) =
     held env l - mset (map RMem ps) - {#RMem cp#}"
  "bus_held env (Mem (Kfree cp) # rev (map (Mem \<circ> Kfree) ps) @ [Node (Class_destroy cl), Node (Unregister_chrdev_region n k)] @ l) =
     bus_held env l"
  by (simp_all add: held_kfrees)

text \<open>
  C13: the whole life of the driver with one card: it is loaded, the card is plugged in, its interrupt is
  requested, the card is removed and the driver is unloaded. Every step returns, whether the
  interrupt could be had or not, with 0 from loading, probing and removing. In the end the driver
  holds the memory it held before it was loaded and the bus resources, interrupts, nodes and proc
  entries that were held when it had been loaded; the module structure and the sixteen boards are
  gone, and no memory that was in use before has been touched.
\<close>

theorem module_lifecycle_balances:
  assumes "alloc_fresh env" "init_ready env bv ov s" "probe_ready env dev cd offs dn"
  shows "\<exists>cp c t a r b w u. pcieuni_init_module_exp env pp bv ov s = Inr ((0, cp), t) \<and> k_cdev t cp = Some c \<and>
    pcieuni_probe_exp env dev cp dn n0 t = Inr ((0, 0), a) \<and>
    pcieuni_setup_interrupt env (pcieuni_dev_m c ! 0) a = Inr (r, b) \<and>
    pcieuni_remove_exp dev cp dn b = Inr ((0, card_slot cd), w) \<and>
    pcieuni_cleanup_module_exp cp w = Inr (NULL, u) \<and>
    held env (k_log u) = held env (k_log s) \<and> bus_held env (k_log u) = bus_held env (k_log t) \<and>
    k_cdev u = (k_cdev s)(cp := None) \<and> k_dev u = k_dev s |` (- set (pcieuni_dev_m c))"
proof -
  from init_up [OF assms(1,2), of pp] obtain cp c t where
    init: "pcieuni_init_module_exp env pp bv ov s = Inr ((0, cp), t)" and module: "module_up env cp c s t" by blast
  note up = module_upD [OF module]
  have fresh: "\<not> dev_mut (fresh_board cp (PCIEUNI_MAJOR c) 0)" "dev_file_list (fresh_board cp (PCIEUNI_MAJOR c) 0) = []"
    "brd_num (fresh_board cp (PCIEUNI_MAJOR c) 0) = of_nat 0" by (simp_all add: fresh_board_def zero_dev_def)
  from probe_remove_run [OF module_up_slot_free [OF module] assms(3) fresh, of n0] obtain a r b w entry d where
    card: "pcieuni_probe_exp env dev cp dn n0 t = Inr ((0, of_nat 0), a)"
      "pcieuni_setup_interrupt env (pcieuni_dev_m c ! 0) a = Inr (r, b)"
      "pcieuni_remove_exp dev cp dn b = Inr ((0, card_slot cd), w)"
    and w: "held env (k_log w) = held env (k_log t)" "bus_held env (k_log w) = bus_held env (k_log t)"
      "k_dev w = (k_dev t)(pcieuni_dev_m c ! 0 \<mapsto> d)" "k_cdev w = (k_cdev t)(cp \<mapsto> c\<lparr>pcieuni_procdir := entry\<rparr>)" by blast
  from cleanup_table [of cp w "c\<lparr>pcieuni_procdir := entry\<rparr>"] up(1,5,7) w(4) obtain u where
    u: "pcieuni_cleanup_module_exp cp w = Inr (NULL, u)" "k_cdev u = (k_cdev w)(cp := None)"
      "k_dev u = k_dev w |` (- set (pcieuni_dev_m c))"
      "k_log u = Mem (Kfree cp) # rev (map (Mem \<circ> Kfree) (pcieuni_dev_m c)) @ [Node (Class_destroy (pcieuni_class c)),
        Node (Unregister_chrdev_region (MKDEV (PCIEUNI_MAJOR c) (PCIEUNI_MINOR c)) 16)] @ k_log w" by auto
  have "held env (k_log u) = held env (k_log s)" "bus_held env (k_log u) = bus_held env (k_log t)"
    using w(1,2) up(10) unfolding u(4) held_cleanup by simp_all
  moreover have "k_dev u = k_dev s |` (- set (pcieuni_dev_m c))"
    using up(5,9) by (auto simp: u(3) w(3) restrict_map_def fun_eq_iff)
  moreover have "k_cdev u = (k_cdev s)(cp := None)" using u(2) w(4) up(2) by simp
  moreover have "k_cdev t cp = Some c" using up(2) by simp
  moreover have "pcieuni_probe_exp env dev cp dn n0 t = Inr ((0, 0), a)" using card(1) by simp
  ultimately show ?thesis using init card(2,3) u(1) by blast
qed

theorem module_lifecycle_balances_witness:
  "\<exists>cp c t a r b w u. pcieuni_init_module_exp ex_full_kernel 0 ''1.04'' ''0.11'' empty_kst = Inr ((0, cp), t) \<and>
    k_cdev t cp = Some c \<and>
    pcieuni_probe_exp ex_full_kernel 0x500 cp ''pcieuni'' 0 t = Inr ((0, 0), a) \<and>
    pcieuni_setup_interrupt ex_full_kernel (pcieuni_dev_m c ! 0) a = Inr (r, b) \<and>
    pcieuni_remove_exp 0x500 cp ''pcieuni'' b = Inr ((0, 5), w) \<and>
    pcieuni_cleanup_module_exp cp w = Inr (NULL, u) \<and> held ex_full_kernel (k_log u) = {#}"
proof -
  have ex: "card_slot ex_card = 5" "held ex_full_kernel (k_log empty_kst) = {#}"
    by (simp_all add: ex_card_def card_slot_def empty_kst_def)
  from module_lifecycle_balances [OF ex_full_kernel_fresh ex_full_kernel_ready, of 0 "0x500" 0, unfolded ex]
  show ?thesis by blast
qed

section \<open>From the plug to the user's buffer\<close>

lemma probed_bar_size:
  assumes "mem_base b = bar_start env dev k" "mem_base_end b = ucast (pci_resource_end_ret env dev k)"
  shows "bar_size b = unat (bar_len env dev k)"
  using assms by (simp add: bar_size_def bar_len_def)

text \<open>
  C3: the three components a user program meets, together. A device is plugged in, its node is
  opened and read: with a file position that names a BAR the device has and an offset inside it,
  the read returns the number of requested bytes that lie in the BAR, and the user's buffer holds
  the registers of the device at that offset of that BAR, word by word.
\<close>

theorem plugged_card_readable:
  assumes "slot_free cp c m d s" "probe_ready env dev cd offs dn" "\<not> dev_mut d"
    "pos_bar f_pos < 6" "bar_start env dev (pos_bar f_pos) \<noteq> 0" "card_base cd (pos_bar f_pos) \<noteq> NULL"
    "unat (bar_len env dev (pos_bar f_pos)) mod 4 = 3" "pos_offset f_pos \<le> unat (bar_len env dev (pos_bar f_pos))"
    "4 dvd unat f_pos" "4 dvd unat cnt" "unat cnt \<le> MAX_RW_COUNT"
    "\<And>l p. \<not> lock_interrupted env l p" "\<And>l a. \<not> copy_to_user_fails env l a"
  shows "\<exists>t u new n. pcieuni_probe_exp env dev cp dn n0 s = Inr ((0, of_nat m), t) \<and>
    pcieuni_open_exp env (pcieuni_dev_m c ! m) minor filp t = Inr (0, u) \<and>
    pcieuni_read_no_struct_exp env junk filp buf cnt f_pos u = Inr ((of_nat n, f_pos + of_nat n), u\<lparr>k_log := new @ k_log u\<rparr>) \<and>
    n = min (unat cnt) (unat (bar_len env dev (pos_bar f_pos)) + 1 - pos_offset f_pos) \<and>
    (\<forall>i < n div 4. copied_out new (buf + of_nat (4 * i)) =
       Some (card_regs cd (card_base cd (pos_bar f_pos) + of_nat (pos_offset f_pos) + of_nat (4 * i))))"
proof -
  define bp where "bp = pcieuni_dev_m c ! m"
  have b0: "bp \<noteq> NULL" using slot_freeD(5) [OF assms(1)] by (simp add: bp_def)
  from assms(2) have mem: "memory_plenty env" and "stable_regs env (card_regs cd)"
    by (simp_all add: probe_ready_def card_there_def)
  then have regs: "ioread32_ret env l a = card_regs cd a" for l a by (simp add: stable_regs_def)
  from probe_run [OF assms(1,2), of n0] obtain d' t where
    probe: "pcieuni_probe_exp env dev cp dn n0 s = Inr ((0, of_nat m), t)" and left: "probe_left env dev cd offs dn cp c m d d' s t" by blast
  from left obtain x bi ps where dev: "k_dev t bp = Some d'" "d' = probed_dev env dev cd dn x bi ps d"
    unfolding probe_left_def bp_def by auto
  define p where "p = kzalloc_ret env (Sync (Mutex_lock bp) # k_log t)"
  define u where "u = (put_dev bp (opened minor p filp d') [Sync (Mutex_unlock bp), Mem (Kzalloc p), Sync (Mutex_lock bp)] t)
      \<lparr>k_priv := (k_priv t)(filp := bp)\<rparr>"
  have "pcieuni_open_exp env bp minor filp t = Inr (0, u)"
    unfolding u_def by (rule open_run) (use b0 dev mem assms(3,12) in \<open>simp_all add: p_def memory_plenty_def\<close>)
  moreover have u: "k_priv u filp = bp" "k_dev u bp = Some (opened minor p filp d')" by (simp_all add: u_def)
  moreover have "\<not> dev_mut (opened minor p filp d')" "dev_sts (opened minor p filp d') = 1"
    using assms(3) by (simp_all add: opened_def dev(2))
  moreover from probed_bar [OF assms(4), of env dev cd dn x bi ps d] obtain b where
    b: "dev_bar d' (pos_bar f_pos) = Some b" "mem_base b = bar_start env dev (pos_bar f_pos)"
      "memmory_base b = card_base cd (pos_bar f_pos)" "mem_base_end b = ucast (pci_resource_end_ret env dev (pos_bar f_pos))"
    using assms(5) by (auto simp: dev(2) card_at_def)
  note size = probed_bar_size [OF b(2,4)]
  have bar: "dev_bar (opened minor p filp d') (pos_bar f_pos) = Some b"
    using b(1) by (simp add: dev_bar_def opened_def cong: if_cong)
  ultimately have "valid_request (opened minor p filp d') cnt f_pos"
    using b(3) size assms(6,8-10) by (simp add: valid_request_def)
  from read_delivers [OF u(1) b0 u(2) _ this bar, of env "card_regs cd" junk buf] \<open>\<not> dev_mut (opened minor p filp d')\<close>
    size assms(7,11-13) regs obtain new where
    "pcieuni_read_no_struct_exp env junk filp buf cnt f_pos u =
      Inr ((of_nat (bytes_in_bar b cnt f_pos), f_pos + of_nat (bytes_in_bar b cnt f_pos)), u\<lparr>k_log := new @ k_log u\<rparr>)"
    "\<forall>i < bytes_in_bar b cnt f_pos div 4. copied_out new (buf + of_nat (4 * i)) =
         Some (card_regs cd (memmory_base b + of_nat (pos_offset f_pos) + of_nat (4 * i)))" by auto
  moreover have "bytes_in_bar b cnt f_pos = min (unat cnt) (unat (bar_len env dev (pos_bar f_pos)) + 1 - pos_offset f_pos)"
    by (simp add: bytes_in_bar_def size)
  ultimately show ?thesis
    using probe \<open>pcieuni_open_exp env bp minor filp t = Inr (0, u)\<close> b(3) unfolding bp_def
    by (intro exI [of _ t] exI [of _ u] exI [of _ new] exI [of _ "bytes_in_bar b cnt f_pos"]) simp
qed

theorem plugged_card_readable_witness:
  "\<exists>t u new. pcieuni_probe_exp ex_card_env 0x500 0x300 ''pcieuni'' 0 ex_module = Inr ((0, 0), t) \<and>
    pcieuni_open_exp ex_card_env 0x2000 0 7 t = Inr (0, u) \<and>
    pcieuni_read_no_struct_exp ex_card_env ex_ti 7 0x5000 8 0x18 u = Inr ((8, 0x20), u\<lparr>k_log := new @ k_log u\<rparr>) \<and>
    copied_out new 0x5000 = Some 0x100"
proof -
  have pos: "pos_bar 0x18 = 0" "pos_offset 0x18 = 0x18" by (simp_all add: pos_bar_def pos_offset_def)
  have card: "bar_start ex_card_env 0x500 0 = 0xF0000000" "bar_len ex_card_env 0x500 0 = 0xFFF" "card_base ex_card 0 = 0xC000"
    "card_regs ex_card 0xC018 = 0x100" "pcieuni_dev_m ex_table ! 0 = 0x2000"
    by (simp_all add: bar_start_def bar_len_def ex_card_env_def ex_card_def ex_regs_def ex_table_def)
  have env: "\<not> lock_interrupted ex_card_env l p" "\<not> copy_to_user_fails ex_card_env l a" for l p a
    by (simp_all add: ex_card_env_def ex_board_def quiet_kernel_def)
  from plugged_card_readable [OF ex_slot_free ex_probe_ready, of "0x18" 8 0 0 7 ex_ti "0x5000"] pos card env
  show ?thesis by (fastforce simp: zero_dev_def dest: spec [of _ 0])
qed

section \<open>Files of a board that has been removed\<close>

text \<open>
  C16: a file that is still open when its board is removed. Reading, writing and every ioctl on it
  return -EFAULT and touch nothing, neither a register nor the board. Closing it returns 0, but it
  is the null device whose reference count goes down; the board keeps counting the file.
\<close>

theorem removed_files_refused:
  assumes "k_drvdata s dev = bp" "bp \<noteq> NULL" "k_dev s bp = Some d" "\<not> dev_mut d" "cp \<noteq> NULL" "k_cdev s cp = Some c"
    "length (board_name dn (slot_num d)) < 32" "fl \<in> set (dev_file_list d)"
    "pcieuni_dev_m c ! 15 = np" "np \<noteq> NULL" "np \<noteq> bp" "k_dev s np = Some e" "dev_sts e = 0" "\<not> dev_mut e"
    "\<And>l. \<not> lock_interrupted env l np"
  shows "\<exists>t. pcieuni_remove_exp dev cp dn s = Inr ((0, slot_num d), t) \<and> k_priv t (fl_filp fl) = np \<and>
    (\<forall>junk buf count f_pos. pcieuni_read_no_struct_exp env junk (fl_filp fl) buf count f_pos t = Inr ((- 14, f_pos), t) \<and>
      pcieuni_write_no_struct_exp env junk (fl_filp fl) buf count f_pos t = Inr ((- 14, f_pos), t)) \<and>
    (\<forall>junk cmd arg cm. pcieuni_ioctl_exp env junk (fl_filp fl) cmd arg cm t = Inr (- 14, t)) \<and>
    (\<exists>u e' d'. pcieuni_release_exp env (fl_filp fl) t = Inr (0, u) \<and> k_dev u np = Some e' \<and> dev_file_ref e' = dev_file_ref e - 1 \<and>
      k_dev u bp = Some d' \<and> dev_file_ref d' = dev_file_ref d)"
proof -
  let ?t = "(put_dev bp (removed_dev d) (remove_log dev bp c dn d) s)
    \<lparr>k_cdev := (k_cdev s)(cp \<mapsto> c\<lparr>pcieuniModuleNum := pcieuniModuleNum c - 1\<rparr>),
     k_priv := orphaned (pcieuni_dev_m c ! 15) d (k_priv s)\<rparr>"
  have priv: "k_priv ?t (fl_filp fl) = np" using assms(8,9) by (simp add: orphaned_def)
  have ne: "k_dev ?t np = Some e" "k_dev ?t bp = Some (removed_dev d)" using assms(11,12) by simp_all
  have "pcieuni_remove_exp dev cp dn s = Inr ((0, slot_num d), ?t)" by (rule remove_run [OF assms(1-7)])
  moreover have "pcieuni_read_no_struct_exp env junk (fl_filp fl) buf count f_pos ?t = Inr ((- 14, f_pos), ?t)"
    "pcieuni_write_no_struct_exp env junk (fl_filp fl) buf count f_pos ?t = Inr ((- 14, f_pos), ?t)" for junk buf count f_pos
    using priv ne assms(10,13)
    by (simp_all add: pcieuni_read_no_struct_exp_def pcieuni_write_no_struct_exp_def checkAndCalculateTransferInformation_def
        kbind_def kget_app get_dev_app kret_app)
  moreover have "pcieuni_ioctl_exp env junk (fl_filp fl) cmd arg cm ?t = Inr (- 14, ?t)" for junk cmd arg cm
    using priv ne assms(10,13) by (simp add: pcieuni_ioctl_exp_def kbind_def kget_app get_dev_app kret_app)
  moreover have "\<exists>u e' d'. pcieuni_release_exp env (fl_filp fl) ?t = Inr (0, u) \<and> k_dev u np = Some e' \<and>
      dev_file_ref e' = dev_file_ref e - 1 \<and> k_dev u bp = Some d' \<and> dev_file_ref d' = dev_file_ref d"
    using release_run [OF priv assms(10) ne(1) assms(14,15)] ne assms(11) by (auto simp: released_def)
  ultimately show ?thesis using priv by (intro exI [of _ ?t]) blast
qed

definition ex_removing :: kst where
  "ex_removing = ex_module\<lparr>k_dev := (k_dev ex_module)(0x2000 \<mapsto> zero_dev\<lparr>binded := 1, dev_sts := 1, dev_file_ref := 1,
       dev_file_list := [\<lparr>fl_addr = 0x7000, fl_filp = 7, fl_file_cnt = 1\<rparr>]\<rparr>),
     k_drvdata := (\<lambda>_. 0x2000), k_priv := (\<lambda>_. 0x2000)\<rparr>"

theorem removed_files_refused_witness:
  "\<exists>t. pcieuni_remove_exp 0x500 0x300 ''pcieuni'' ex_removing = Inr ((0, 0), t) \<and>
     pcieuni_read_no_struct_exp quiet_kernel ex_ti 7 0x5000 4 0 t = Inr ((- 14, 0), t)"
proof -
  have "length (board_name ''pcieuni'' 0) < 32" by (simp add: board_name_def fmt_i_def digits.simps)
  then show ?thesis
    using removed_files_refused [of ex_removing "0x500" "0x2000" "zero_dev\<lparr>binded := 1, dev_sts := 1, dev_file_ref := 1,
        dev_file_list := [\<lparr>fl_addr = 0x7000, fl_filp = 7, fl_file_cnt = 1\<rparr>]\<rparr>" "0x300" ex_table "''pcieuni''"
        "\<lparr>fl_addr = 0x7000, fl_filp = 7, fl_file_cnt = 1\<rparr>" "0x2200" "zero_dev\<lparr>binded := 1, null_dev := 1\<rparr>" quiet_kernel]
    by (fastforce simp: ex_removing_def ex_module_def ex_table_def zero_dev_def quiet_kernel_def nth_append)
qed

end
